theory Spec2Isabelle
  imports Main "HOL-Library.AList"
begin

section \<open>Data model\<close>

text \<open>
  The input renderer (class \<open>InputRenderer\<close>) keeps pools of scene-graph nodes.  Nodes are
  JavaScript objects that are shared by reference between the pools, the list of children of
  the renderer and the caller, so they live in an explicit store: an address is an index into
  the list \<open>store\<close>, and allocating an object appends to it.

  Transforms (the grip matrix, the matrix of a rigid transform, a cursor position) are opaque
  values that the renderer only copies into a node; the model records which value was assigned
  last.
\<close>

type_synonym address = nat
type_synonym transform = nat

datatype error = TypeError

text \<open>
  The value of \<open>XRInputSource.handedness\<close>, rendered as the string the source concatenates
  into the registry key.  The defaults of the parameters (\<open>handedness = "right"\<close>,
  \<open>profile = ""\<close>) stand for an omitted argument; the model always passes both.
\<close>

datatype handedness = HandNone | HandLeft | HandRight

fun handedness_str :: "handedness \<Rightarrow> string" where
  "handedness_str HandNone = ''none''"
| "handedness_str HandLeft = ''left''"
| "handedness_str HandRight = ''right''"

text \<open>
  The render primitives of a node: built by \<open>_createLaserMesh\<close> or \<open>_createCursorMesh\<close>
  against the renderer with the given handle, or loaded from an asset by the caller.
\<close>

datatype mesh = LaserMesh nat | CursorMesh nat | AssetMesh nat

record node =
  mesh :: mesh
  matrix :: "transform option"
  translation :: "transform option"
  visible :: bool

text \<open>The record \<open>{ nodes: [...], activeCount: 0 }\<close> stored per registry key; \<open>hideController\<close>
  adds a property \<open>visible\<close> to it.\<close>

record controller =
  nodes :: "address list"
  activeCount :: nat
  controller_visible :: "bool option"

record reset_options =
  opt_controllers :: bool
  opt_lasers :: bool
  opt_cursors :: bool

datatype rigidTransform = RigidTransform (rt_matrix: transform)

datatype visibilityState = Visible | VisibleBlurred | Hidden

text \<open>
  The fields of \<open>InputRenderer\<close>.  \<open>controllers\<close> is the object used as a dictionary (insertion
  ordered, as \<open>for ... in\<close> enumerates it); \<open>None\<close> stands for \<open>null\<close>.  \<open>renderer\<close>,
  \<open>children\<close> are inherited from \<open>Node\<close>.
\<close>

record inputRenderer =
  maxInputElements :: nat
  controllers :: "(string \<times> controller) list option"
  lasers :: "address list option"
  cursors :: "address list option"
  activeControllers :: nat
  activeLasers :: nat
  activeCursors :: nat
  blurred :: bool
  renderer :: "nat option"
  children :: "address list"
  store :: "node list"

definition DEFAULT_RESET_OPTIONS :: reset_options where
  "DEFAULT_RESET_OPTIONS = \<lparr>opt_controllers = True, opt_lasers = True, opt_cursors = True\<rparr>"

section \<open>Scene-graph nodes\<close>

text \<open>Assignments to the properties \<open>visible\<close>, \<open>matrix\<close> and \<open>translation\<close> of a node.\<close>

definition set_visible :: "address \<Rightarrow> bool \<Rightarrow> node list \<Rightarrow> node list" where
  "set_visible n b h = h[n := (h ! n)\<lparr>visible := b\<rparr>]"

definition set_matrix :: "address \<Rightarrow> transform \<Rightarrow> node list \<Rightarrow> node list" where
  "set_matrix n m h = h[n := (h ! n)\<lparr>matrix := Some m\<rparr>]"

definition set_translation :: "address \<Rightarrow> transform \<Rightarrow> node list \<Rightarrow> node list" where
  "set_translation n t h = h[n := (h ! n)\<lparr>translation := Some t\<rparr>]"

text \<open>
  Modelled from the spec: the class \<open>Node\<close> (its constructor, \<open>addNode\<close> and \<open>clone\<close>) is
  imported from \<open>core/node\<close>, which is not among the sources.  The spec gives the interface:
  \<open>add_child(node)\<close> (a node is added once to the scene graph as a child), and \<open>clone()\<close>,
  which copies the transform and visibility state and shares the mesh and material
  references.  A new node starts visible and without a transform.
\<close>

definition addNode :: "address \<Rightarrow> inputRenderer \<Rightarrow> inputRenderer" where
  "addNode n s = (if n \<in> set (children s) then s else s\<lparr>children := children s @ [n]\<rparr>)"

definition clone :: "address \<Rightarrow> inputRenderer \<Rightarrow> address \<times> inputRenderer" where
  "clone n s = (length (store s), s\<lparr>store := store s @ [store s ! n]\<rparr>)"

definition new_Node :: "mesh \<Rightarrow> inputRenderer \<Rightarrow> address \<times> inputRenderer" where
  "new_Node m s =
     (length (store s),
      s\<lparr>store := store s @ [\<lparr>mesh = m, matrix = None, translation = None, visible = True\<rparr>]\<rparr>)"

section \<open>The input renderer\<close>

definition InputRenderer_constructor :: inputRenderer where
  "InputRenderer_constructor =
     \<lparr>maxInputElements = 32,
      controllers = None, lasers = None, cursors = None,
      activeControllers = 0, activeLasers = 0, activeCursors = 0,
      blurred = False, renderer = None, children = [], store = []\<rparr>"

definition onRendererChanged :: "nat option \<Rightarrow> inputRenderer \<Rightarrow> inputRenderer" where
  "onRendererChanged newRenderer s =
     s\<lparr>controllers := None, lasers := None, cursors := None,
       activeControllers := 0, activeLasers := 0, activeCursors := 0\<rparr>"

text \<open>The \<open>visibilitychange\<close> listener installed by \<open>useProfileControllerMeshes\<close>.\<close>

definition visibilitychange :: "visibilityState \<Rightarrow> inputRenderer \<Rightarrow> inputRenderer" where
  "visibilitychange v s =
     (if v = VisibleBlurred then s\<lparr>blurred := True\<rparr>
      else if v = Visible then s\<lparr>blurred := False\<rparr>
      else s)"

definition controller_key :: "string \<Rightarrow> handedness \<Rightarrow> string" where
  "controller_key profile handedness = profile @ ''_'' @ handedness_str handedness"

definition setControllerMesh ::
  "address \<Rightarrow> handedness \<Rightarrow> string \<Rightarrow> inputRenderer \<Rightarrow> inputRenderer" where
  "setControllerMesh controllerNode handedness profile s =
     (let cs = (case controllers s of None \<Rightarrow> [] | Some cs \<Rightarrow> cs);
          s1 = s\<lparr>controllers := Some (AList.update (controller_key profile handedness)
                   \<lparr>nodes = [controllerNode], activeCount = 0, controller_visible = None\<rparr> cs)\<rparr>;
          s2 = s1\<lparr>store := set_visible controllerNode False (store s1)\<rparr>
      in addNode controllerNode s2)"

text \<open>
  \<open>addController\<close>.  The choice of the node (reuse the instance at \<open>activeCount\<close>, or clone
  instance 0, add the clone to the scene graph and push it) is \<open>next_controllerNode\<close>.
  \<open>controller.nodes[0].clone()\<close> on an empty array is a call on \<open>undefined\<close>, a
  \<open>TypeError\<close>; it is raised before anything is written.  The counters are natural
  numbers and \<open>%\<close> is \<open>mod\<close>, which agrees with JavaScript for a positive
  \<open>_maxInputElements\<close> (the constructor sets 32; for 0 JavaScript would give \<open>NaN\<close>).
\<close>

definition next_controllerNode ::
  "controller \<Rightarrow> inputRenderer \<Rightarrow> error + (address \<times> controller \<times> inputRenderer)" where
  "next_controllerNode c s =
     (if activeCount c < length (nodes c) then Inr (nodes c ! activeCount c, c, s)
      else (case nodes c of
              [] \<Rightarrow> Inl TypeError
            | n0 # _ \<Rightarrow>
                (let (controllerNode, s1) = clone n0 s;
                     s2 = addNode controllerNode s1
                 in Inr (controllerNode, c\<lparr>nodes := nodes c @ [controllerNode]\<rparr>, s2))))"

definition addController ::
  "transform \<Rightarrow> handedness \<Rightarrow> string \<Rightarrow> inputRenderer \<Rightarrow> error + inputRenderer" where
  "addController gripMatrix handedness profile s =
     (case controllers s of
        None \<Rightarrow> Inr s
      | Some cs \<Rightarrow>
          if blurred s then Inr s
          else
            (case map_of cs (controller_key profile handedness) of
               None \<Rightarrow> Inr s
             | Some c \<Rightarrow>
                 (case next_controllerNode c s of
                    Inl e \<Rightarrow> Inl e
                  | Inr (controllerNode, c1, s2) \<Rightarrow>
                      (let c2 = c1\<lparr>activeCount := (activeCount c1 + 1) mod maxInputElements s2\<rparr>;
                           s3 = s2\<lparr>controllers :=
                                   Some (AList.update (controller_key profile handedness) c2 cs)\<rparr>
                       in Inr (s3\<lparr>store := set_visible controllerNode True
                                     (set_matrix controllerNode gripMatrix (store s3))\<rparr>)))))"

definition hideController :: "handedness \<Rightarrow> string \<Rightarrow> inputRenderer \<Rightarrow> inputRenderer" where
  "hideController handedness profile s =
     (case controllers s of
        None \<Rightarrow> s
      | Some cs \<Rightarrow>
          (case map_of cs (controller_key profile handedness) of
             None \<Rightarrow> s
           | Some c \<Rightarrow>
               s\<lparr>controllers :=
                   Some (AList.update (controller_key profile handedness)
                           (c\<lparr>controller_visible := Some True\<rparr>) cs)\<rparr>))"

text \<open>
  The mesh factories build one new node with the render primitives created against the
  attached renderer (handle \<open>r\<close>); the geometry itself is constant data.
\<close>

definition createLaserMesh :: "nat \<Rightarrow> inputRenderer \<Rightarrow> address \<times> inputRenderer" where
  "createLaserMesh r s = new_Node (LaserMesh r) s"

definition createCursorMesh :: "nat \<Rightarrow> inputRenderer \<Rightarrow> address \<times> inputRenderer" where
  "createCursorMesh r s = new_Node (CursorMesh r) s"

text \<open>
  \<open>addLaserPointer\<close>.  \<open>laser_mesh_if_needed\<close> is the lazy construction of the template,
  \<open>next_laser\<close> the choice of the node.  The comparison reads \<open>this._lasers?.length ?? 0\<close>,
  so a missing pool falls to the \<open>else\<close> branch, where \<open>console.error\<close> is called and
  \<open>laser\<close> stays undefined; the counter is advanced in every case.
\<close>

definition laser_mesh_if_needed :: "inputRenderer \<Rightarrow> inputRenderer" where
  "laser_mesh_if_needed s =
     (case (lasers s, renderer s) of
        (None, Some r) \<Rightarrow>
          (let (m, s') = createLaserMesh r s
           in addNode m (s'\<lparr>lasers := Some [m]\<rparr>))
      | _ \<Rightarrow> s)"

definition next_laser :: "inputRenderer \<Rightarrow> address option \<times> inputRenderer" where
  "next_laser s =
     (case lasers s of
        None \<Rightarrow> (None, s)
      | Some ls \<Rightarrow>
          if activeLasers s < length ls then (Some (ls ! activeLasers s), s)
          else (case ls of
                  [] \<Rightarrow> (None, s)
                | l0 # _ \<Rightarrow>
                    (let (l, s') = clone l0 s
                     in (Some l, (addNode l s')\<lparr>lasers := Some (ls @ [l])\<rparr>))))"

definition addLaserPointer :: "rigidTransform \<Rightarrow> inputRenderer \<Rightarrow> error + inputRenderer" where
  "addLaserPointer rigidTransform s =
     (if blurred s then Inr s
      else
        (let (laser, s2) = next_laser (laser_mesh_if_needed s);
             s3 = s2\<lparr>activeLasers := (activeLasers s2 + 1) mod maxInputElements s2\<rparr>
         in (case laser of
               None \<Rightarrow> Inr s3
             | Some l \<Rightarrow>
                 Inr (s3\<lparr>store := set_visible l True
                             (set_matrix l (rt_matrix rigidTransform) (store s3))\<rparr>))))"

text \<open>
  \<open>addCursor\<close>.  Here the comparison reads \<open>this._cursors.length\<close> with no guard: on a missing
  pool this is a property read on \<open>null\<close>, a \<open>TypeError\<close>, raised before anything is written.
\<close>

definition cursor_mesh_if_needed :: "inputRenderer \<Rightarrow> inputRenderer" where
  "cursor_mesh_if_needed s =
     (case (cursors s, renderer s) of
        (None, Some r) \<Rightarrow>
          (let (m, s') = createCursorMesh r s
           in addNode m (s'\<lparr>cursors := Some [m]\<rparr>))
      | _ \<Rightarrow> s)"

definition next_cursor :: "inputRenderer \<Rightarrow> error + (address \<times> inputRenderer)" where
  "next_cursor s =
     (case cursors s of
        None \<Rightarrow> Inl TypeError
      | Some cs \<Rightarrow>
          if activeCursors s < length cs then Inr (cs ! activeCursors s, s)
          else (case cs of
                  [] \<Rightarrow> Inl TypeError
                | c0 # _ \<Rightarrow>
                    (let (c, s') = clone c0 s
                     in Inr (c, (addNode c s')\<lparr>cursors := Some (cs @ [c])\<rparr>))))"

definition addCursor :: "transform \<Rightarrow> inputRenderer \<Rightarrow> error + inputRenderer" where
  "addCursor cursorPos s =
     (if blurred s then Inr s
      else
        (case next_cursor (cursor_mesh_if_needed s) of
           Inl e \<Rightarrow> Inl e
         | Inr (cursor, s2) \<Rightarrow>
             (let s3 = s2\<lparr>activeCursors := (activeCursors s2 + 1) mod maxInputElements s2\<rparr>
              in Inr (s3\<lparr>store := set_visible cursor True
                            (set_translation cursor cursorPos (store s3))\<rparr>))))"

text \<open>\<open>reset\<close>: the loop over the nodes of one pool, and the loop over the registry.\<close>

fun hide_nodes :: "address list \<Rightarrow> node list \<Rightarrow> node list" where
  "hide_nodes [] h = h"
| "hide_nodes (n # ns) h = hide_nodes ns (set_visible n False h)"

fun reset_controllers ::
  "(string \<times> controller) list \<Rightarrow> node list \<Rightarrow> (string \<times> controller) list \<times> node list" where
  "reset_controllers [] h = ([], h)"
| "reset_controllers ((k, c) # cs) h =
     (let (cs', h') = reset_controllers cs (hide_nodes (nodes c) h)
      in ((k, c\<lparr>activeCount := 0\<rparr>) # cs', h'))"

text \<open>The three conditional blocks of \<open>reset\<close>, in the order of the source.\<close>

definition reset_controller_pools :: "reset_options \<Rightarrow> inputRenderer \<Rightarrow> inputRenderer" where
  "reset_controller_pools opts s =
     (case controllers s of
        None \<Rightarrow> s
      | Some cs \<Rightarrow>
          if opt_controllers opts
          then (let (cs', h') = reset_controllers cs (store s)
                in s\<lparr>controllers := Some cs', store := h'\<rparr>)
          else s)"

definition reset_laser_pool :: "reset_options \<Rightarrow> inputRenderer \<Rightarrow> inputRenderer" where
  "reset_laser_pool opts s =
     (case lasers s of
        None \<Rightarrow> s
      | Some ls \<Rightarrow>
          if opt_lasers opts
          then s\<lparr>store := hide_nodes ls (store s), activeLasers := 0\<rparr>
          else s)"

definition reset_cursor_pool :: "reset_options \<Rightarrow> inputRenderer \<Rightarrow> inputRenderer" where
  "reset_cursor_pool opts s =
     (case cursors s of
        None \<Rightarrow> s
      | Some cs \<Rightarrow>
          if opt_cursors opts
          then s\<lparr>store := hide_nodes cs (store s), activeCursors := 0\<rparr>
          else s)"

definition reset :: "reset_options option \<Rightarrow> inputRenderer \<Rightarrow> inputRenderer" where
  "reset options s =
     (let opts = (case options of None \<Rightarrow> DEFAULT_RESET_OPTIONS | Some opts \<Rightarrow> opts)
      in reset_cursor_pool opts (reset_laser_pool opts (reset_controller_pools opts s)))"

text \<open>The pool registered for a (profile, handedness) key, if any.\<close>

definition controller_pool :: "string \<Rightarrow> handedness \<Rightarrow> inputRenderer \<Rightarrow> controller option" where
  "controller_pool profile handedness s =
     (case controllers s of
        None \<Rightarrow> None
      | Some cs \<Rightarrow> map_of cs (controller_key profile handedness))"

text \<open>
  An exception leaves the renderer as it was when the exception was raised; every
  \<open>TypeError\<close> above is raised before the first write of the call, so that is the state
  before the call.
\<close>

definition state_after :: "inputRenderer \<Rightarrow> error + inputRenderer \<Rightarrow> inputRenderer" where
  "state_after s r = (case r of Inl e \<Rightarrow> s | Inr s' \<Rightarrow> s')"

lemmas node_defs = set_visible_def set_matrix_def set_translation_def addNode_def clone_def
  new_Node_def createLaserMesh_def createCursorMesh_def

lemmas renderer_defs = InputRenderer_constructor_def onRendererChanged_def visibilitychange_def
  controller_key_def setControllerMesh_def next_controllerNode_def addController_def
  hideController_def laser_mesh_if_needed_def next_laser_def addLaserPointer_def
  cursor_mesh_if_needed_def next_cursor_def addCursor_def reset_controller_pools_def
  reset_laser_pool_def reset_cursor_pool_def reset_def controller_pool_def state_after_def
  DEFAULT_RESET_OPTIONS_def

section \<open>Observation up to the mark left by hideController\<close>

text \<open>
  \<open>forget_visible\<close> erases the property \<open>visible\<close> of every pool record; two renderers
  with the same image differ at most in that property.
\<close>

definition forget_controller :: "controller \<Rightarrow> controller" where
  "forget_controller c = c\<lparr>controller_visible := None\<rparr>"

definition forget_registry :: "(string \<times> controller) list \<Rightarrow> (string \<times> controller) list" where
  "forget_registry cs = map (\<lambda>(k, c). (k, forget_controller c)) cs"

definition forget_visible :: "inputRenderer \<Rightarrow> inputRenderer" where
  "forget_visible s = s\<lparr>controllers := map_option forget_registry (controllers s)\<rparr>"

section \<open>The pool invariant\<close>

text \<open>
  A pool is well formed when it is seeded (instance 0 exists), its
  instances are distinct objects of the store that share the mesh of instance 0, and its
  counter is below the capacity and at most the number of instances.  While the laser pool
  is missing its counter only stays below the capacity.
\<close>

definition registry :: "inputRenderer \<Rightarrow> (string \<times> controller) list" where
  "registry s = (case controllers s of None \<Rightarrow> [] | Some cs \<Rightarrow> cs)"

definition pool_ok :: "nat \<Rightarrow> node list \<Rightarrow> address list \<Rightarrow> nat \<Rightarrow> bool" where
  "pool_ok m h ns a \<longleftrightarrow>
     ns \<noteq> [] \<and> distinct ns
     \<and> (\<forall>n \<in> set ns. n < length h \<and> mesh (h ! hd ns) = mesh (h ! n))
     \<and> a < m \<and> a \<le> length ns"

definition registry_ok :: "nat \<Rightarrow> node list \<Rightarrow> (string \<times> controller) list \<Rightarrow> bool" where
  "registry_ok m h cs \<longleftrightarrow> (\<forall>kc \<in> set cs. pool_ok m h (nodes (snd kc)) (activeCount (snd kc)))"

definition laser_pool_ok ::
  "nat \<Rightarrow> node list \<Rightarrow> nat option \<Rightarrow> address list option \<Rightarrow> nat \<Rightarrow> bool" where
  "laser_pool_ok m h r pool a \<longleftrightarrow>
     (case pool of
        None \<Rightarrow> a < m \<and> (r \<noteq> None \<longrightarrow> a = 0)
      | Some ls \<Rightarrow> pool_ok m h ls a)"

definition cursor_pool_ok :: "nat \<Rightarrow> node list \<Rightarrow> address list option \<Rightarrow> nat \<Rightarrow> bool" where
  "cursor_pool_ok m h pool a \<longleftrightarrow>
     (case pool of
        None \<Rightarrow> a = 0
      | Some cs \<Rightarrow> pool_ok m h cs a)"

definition pool_inv :: "inputRenderer \<Rightarrow> bool" where
  "pool_inv s \<longleftrightarrow>
     0 < maxInputElements s
     \<and> registry_ok (maxInputElements s) (store s) (registry s)
     \<and> laser_pool_ok (maxInputElements s) (store s) (renderer s) (lasers s) (activeLasers s)
     \<and> cursor_pool_ok (maxInputElements s) (store s) (cursors s) (activeCursors s)"

definition store_le :: "node list \<Rightarrow> node list \<Rightarrow> bool" where
  "store_le h h' \<longleftrightarrow> length h \<le> length h' \<and> (\<forall>n < length h. mesh (h' ! n) = mesh (h ! n))"

section \<open>Reachable states\<close>

text \<open>
  The states a renderer can be in.  It starts as constructed (capacity 32), or with another
  positive capacity assigned to \<open>_maxInputElements\<close> before its first use.  The caller
  allocates nodes (\<open>new Gltf2Node\<close>) and passes references to allocated nodes only; an
  operation that raises leaves the state as it was.

  Modelled from the spec: attaching or detaching the backend is done by \<open>Node\<close>, which is
  not among the sources; by the spec it stores the renderer and runs the reset of
  \<open>onRendererChanged\<close>.
\<close>

inductive reachable :: "inputRenderer \<Rightarrow> bool" where
  constructed: "0 < m \<Longrightarrow> reachable (InputRenderer_constructor\<lparr>maxInputElements := m\<rparr>)"
| allocated: "reachable s \<Longrightarrow> reachable (s\<lparr>store := store s @ [v]\<rparr>)"
| backend: "reachable s \<Longrightarrow> reachable (onRendererChanged r (s\<lparr>renderer := r\<rparr>))"
| visibility: "reachable s \<Longrightarrow> reachable (visibilitychange v s)"
| registered: "reachable s \<Longrightarrow> n < length (store s) \<Longrightarrow>
     reachable (setControllerMesh n handedness profile s)"
| controller_shown: "reachable s \<Longrightarrow>
     reachable (state_after s (addController gripMatrix handedness profile s))"
| controller_hidden: "reachable s \<Longrightarrow> reachable (hideController handedness profile s)"
| laser_shown: "reachable s \<Longrightarrow> reachable (state_after s (addLaserPointer rigidTransform s))"
| cursor_shown: "reachable s \<Longrightarrow> reachable (state_after s (addCursor cursorPos s))"
| was_reset: "reachable s \<Longrightarrow> reachable (reset options s)"

section \<open>Example scenes\<close>

text \<open>
  A freshly constructed renderer in a store that already holds two asset nodes (the controller
  models loaded by the caller), and the same renderer with the first node registered for the
  left hand of profile A.
\<close>

definition asset_node :: "nat \<Rightarrow> node" where
  "asset_node a = \<lparr>mesh = AssetMesh a, matrix = None, translation = None, visible = True\<rparr>"

definition scene0 :: inputRenderer where
  "scene0 = InputRenderer_constructor\<lparr>store := [asset_node 0, asset_node 1]\<rparr>"

definition scene1 :: inputRenderer where
  "scene1 = setControllerMesh 0 HandLeft ''profileA'' scene0"

definition scene2 :: inputRenderer where
  "scene2 = state_after scene1 (addController 7 HandLeft ''profileA'' scene1)"

lemmas scene_defs = asset_node_def scene0_def scene1_def scene2_def

text \<open>A renderer of capacity 2 on which one controller is shown three times.\<close>

definition demo0 :: inputRenderer where
  "demo0 = InputRenderer_constructor\<lparr>maxInputElements := 2\<rparr>"

definition demo1 :: inputRenderer where
  "demo1 = demo0\<lparr>store := store demo0 @ [asset_node 0]\<rparr>"

definition demo2 :: inputRenderer where
  "demo2 = setControllerMesh 0 HandLeft ''profileA'' demo1"

definition demo3 :: inputRenderer where
  "demo3 = state_after demo2 (addController 7 HandLeft ''profileA'' demo2)"

definition demo4 :: inputRenderer where
  "demo4 = state_after demo3 (addController 8 HandLeft ''profileA'' demo3)"

definition demo5 :: inputRenderer where
  "demo5 = state_after demo4 (addController 9 HandLeft ''profileA'' demo4)"

lemmas demo_defs = demo0_def demo1_def demo2_def demo3_def demo4_def demo5_def

section \<open>The instances of the pools\<close>

text \<open>
  The nodes held by the pools, and the nodes a reset with the given options addresses.
  \<open>reset_options_of\<close> is the defaulting of a missing options argument.
\<close>

definition controller_instances :: "inputRenderer \<Rightarrow> address list" where
  "controller_instances s = concat (map (\<lambda>(k, c). nodes c) (registry s))"

definition laser_instances :: "inputRenderer \<Rightarrow> address list" where
  "laser_instances s = (case lasers s of None \<Rightarrow> [] | Some ls \<Rightarrow> ls)"

definition cursor_instances :: "inputRenderer \<Rightarrow> address list" where
  "cursor_instances s = (case cursors s of None \<Rightarrow> [] | Some cs \<Rightarrow> cs)"

definition reset_options_of :: "reset_options option \<Rightarrow> reset_options" where
  "reset_options_of options =
     (case options of None \<Rightarrow> DEFAULT_RESET_OPTIONS | Some opts \<Rightarrow> opts)"

definition reset_targets :: "reset_options \<Rightarrow> inputRenderer \<Rightarrow> address list" where
  "reset_targets opts s =
     (if opt_controllers opts then controller_instances s else [])
     @ (if opt_lasers opts then laser_instances s else [])
     @ (if opt_cursors opts then cursor_instances s else [])"

text \<open>The options \<open>{lasers: true, controllers: false, cursors: false}\<close>.\<close>

definition lasers_only :: reset_options where
  "lasers_only = \<lparr>opt_controllers = False, opt_lasers = True, opt_cursors = False\<rparr>"

text \<open>
  A renderer with a backend, one controller shown and two lasers shown.
\<close>

definition laser_scene0 :: inputRenderer where
  "laser_scene0 =
     (onRendererChanged (Some 1) (InputRenderer_constructor\<lparr>renderer := Some 1\<rparr>))
       \<lparr>store := [asset_node 0]\<rparr>"

definition laser_scene1 :: inputRenderer where
  "laser_scene1 = setControllerMesh 0 HandLeft ''profileA'' laser_scene0"

definition laser_scene2 :: inputRenderer where
  "laser_scene2 = state_after laser_scene1 (addController 7 HandLeft ''profileA'' laser_scene1)"

definition laser_scene3 :: inputRenderer where
  "laser_scene3 = state_after laser_scene2 (addLaserPointer (RigidTransform 3) laser_scene2)"

definition laser_scene4 :: inputRenderer where
  "laser_scene4 = state_after laser_scene3 (addLaserPointer (RigidTransform 4) laser_scene3)"

lemmas laser_scene_defs = laser_scene0_def laser_scene1_def laser_scene2_def laser_scene3_def
  laser_scene4_def

section \<open>Sequences of acquisitions\<close>

text \<open>
  \<open>addControllers\<close> is \<open>addController\<close> called once per grip matrix of the list, for one key,
  stopping at the first exception.  \<open>acquired k t gs s\<close> describes the pool of key \<open>k\<close> after
  the calls for \<open>gs\<close> on a pool seeded with \<open>t\<close>, as long as no call has wrapped around:
  one instance per call, instance \<open>i\<close> carrying the matrix of call \<open>i\<close>.
\<close>

fun addControllers ::
  "transform list \<Rightarrow> handedness \<Rightarrow> string \<Rightarrow> inputRenderer \<Rightarrow> error + inputRenderer" where
  "addControllers [] handedness profile s = Inr s"
| "addControllers (g # gs) handedness profile s =
     (case addController g handedness profile s of
        Inl e \<Rightarrow> Inl e
      | Inr s' \<Rightarrow> addControllers gs handedness profile s')"

definition acquired :: "string \<Rightarrow> address \<Rightarrow> transform list \<Rightarrow> inputRenderer \<Rightarrow> bool" where
  "acquired k t gs s \<longleftrightarrow>
     \<not> blurred s
     \<and> (\<exists>cs c. controllers s = Some cs \<and> map_of cs k = Some c
          \<and> length (nodes c) = length gs \<and> distinct (nodes c) \<and> nodes c ! 0 = t
          \<and> (\<forall>n \<in> set (nodes c). n < length (store s))
          \<and> activeCount c = length gs mod maxInputElements s
          \<and> (\<forall>i < length gs. matrix (store s ! (nodes c ! i)) = Some (gs ! i)
                               \<and> visible (store s ! (nodes c ! i))))"

section \<open>Registration\<close>

text \<open>
  C1 (as stated).  The claim is that a second registration for the same key is ignored.  In
  the scene with two asset nodes, registering node 0 and then node 1 for the left hand of
  profile A leaves a pool that holds node 1, not node 0.
\<close>

theorem setControllerMesh_twice_counterexample:
  "map_option nodes (controller_pool ''profileA'' HandLeft
      (setControllerMesh 0 HandLeft ''profileA'' scene0)) = Some [0]
   \<and> map_option nodes (controller_pool ''profileA'' HandLeft
      (setControllerMesh 1 HandLeft ''profileA''
        (setControllerMesh 0 HandLeft ''profileA'' scene0))) = Some [1]
   \<and> map_option nodes (controller_pool ''profileA'' HandLeft
      (setControllerMesh 1 HandLeft ''profileA''
        (setControllerMesh 0 HandLeft ''profileA'' scene0))) \<noteq> Some [0]"
  by (simp add: renderer_defs node_defs scene_defs Let_def)

lemma controller_pool_setControllerMesh:
  "controller_pool profile handedness (setControllerMesh n handedness profile s)
     = Some \<lparr>nodes = [n], activeCount = 0, controller_visible = None\<rparr>"
  by (simp add: controller_pool_def setControllerMesh_def addNode_def Let_def update_conv')

lemma children_setControllerMesh:
  "set (children (setControllerMesh n handedness profile s)) = insert n (set (children s))"
  by (auto simp: setControllerMesh_def addNode_def Let_def)

text \<open>
  C1 (amended).  Every registration seeds the pool of its key anew: after two calls for the
  same key the pool holds the node of the second call only, with active count 0.  The node
  of the first call is still a child of the renderer.
\<close>

theorem setControllerMesh_last_wins:
  "controller_pool profile handedness
     (setControllerMesh n2 handedness profile (setControllerMesh n1 handedness profile s))
     = Some \<lparr>nodes = [n2], activeCount = 0, controller_visible = None\<rparr>
   \<and> n1 \<in> set (children
       (setControllerMesh n2 handedness profile (setControllerMesh n1 handedness profile s)))"
  by (simp add: controller_pool_setControllerMesh children_setControllerMesh)

section \<open>Missing backend\<close>

text \<open>
  C2 (evaluation at the failing input).  On the freshly constructed renderer (no backend, not
  blurred, no pools) \<open>addCursor\<close> raises a \<open>TypeError\<close>, and \<open>addLaserPointer\<close> returns
  normally but has advanced \<open>_activeLasers\<close>.
\<close>

theorem show_without_backend:
  "renderer InputRenderer_constructor = None
   \<and> addCursor 9 InputRenderer_constructor = Inl TypeError
   \<and> addLaserPointer (RigidTransform 8) InputRenderer_constructor
       = Inr (InputRenderer_constructor\<lparr>activeLasers := 1\<rparr>)"
  by (simp add: renderer_defs Let_def)

section \<open>Change of backend\<close>

text \<open>
  C4 (as stated).  The claim is that a change of backend hides every instance and keeps the
  registry entries.  In the scene where the controller of profile A is shown, the pool of
  the key is gone after \<open>onRendererChanged\<close>, and its node is still visible.
\<close>

theorem onRendererChanged_counterexample:
  "controller_pool ''profileA'' HandLeft scene2 \<noteq> None
   \<and> visible (store scene2 ! 0)
   \<and> controller_pool ''profileA'' HandLeft (onRendererChanged (Some 1) scene2) = None
   \<and> visible (store (onRendererChanged (Some 1) scene2) ! 0)"
  by (simp add: renderer_defs node_defs scene_defs Let_def)

text \<open>
  C4 (amended).  \<open>onRendererChanged\<close> drops the controller registry, the laser pool and the
  cursor pool (and with them the mesh templates), so no key has a pool afterwards, and sets
  the laser and cursor counters to 0.  It writes to no node: the store and the children of
  the renderer are as before, so every instance keeps its visibility and transform.
\<close>

theorem onRendererChanged_drops_pools:
  "controller_pool profile handedness (onRendererChanged r s) = None
   \<and> lasers (onRendererChanged r s) = None
   \<and> cursors (onRendererChanged r s) = None
   \<and> activeLasers (onRendererChanged r s) = 0
   \<and> activeCursors (onRendererChanged r s) = 0
   \<and> store (onRendererChanged r s) = store s
   \<and> children (onRendererChanged r s) = children s
   \<and> blurred (onRendererChanged r s) = blurred s
   \<and> renderer (onRendererChanged r s) = renderer s
   \<and> maxInputElements (onRendererChanged r s) = maxInputElements s"
  by (simp add: onRendererChanged_def controller_pool_def)

section \<open>Suspension\<close>

text \<open>
  C5.  While the renderer is blurred (suspended), \<open>addController\<close>, \<open>addLaserPointer\<close> and
  \<open>addCursor\<close> return normally and leave the whole state as it was: no instance is acquired,
  no transform or visibility flag of any node changes.  The blur event itself only sets the
  flag, so the nodes that were visible stay visible.
\<close>

theorem suspended_show_is_noop:
  assumes "blurred s"
  shows "addController gripMatrix handedness profile s = Inr s
       \<and> addLaserPointer rigidTransform s = Inr s
       \<and> addCursor cursorPos s = Inr s
       \<and> visibilitychange VisibleBlurred s0 = s0\<lparr>blurred := True\<rparr>"
  using assms
  by (simp add: addController_def addLaserPointer_def addCursor_def visibilitychange_def
      split: option.splits)

theorem suspended_show_is_noop_witness:
  "blurred (visibilitychange VisibleBlurred scene1)
   \<and> addController 7 HandLeft ''profileA'' (visibilitychange VisibleBlurred scene1)
       = Inr (visibilitychange VisibleBlurred scene1)
   \<and> addLaserPointer (RigidTransform 8) (visibilitychange VisibleBlurred scene1)
       = Inr (visibilitychange VisibleBlurred scene1)
   \<and> addCursor 9 (visibilitychange VisibleBlurred scene1)
       = Inr (visibilitychange VisibleBlurred scene1)"
proof -
  have b: "blurred (visibilitychange VisibleBlurred scene1)"
    by (simp add: visibilitychange_def)
  from b suspended_show_is_noop [OF b, of 7 HandLeft "''profileA''" "RigidTransform 8" 9 scene1]
  show ?thesis by blast
qed

section \<open>Unregistered keys\<close>

text \<open>
  C9.  When no pool is registered for the key of (profile, handedness), \<open>addController\<close>
  returns normally and leaves the state unchanged; in particular it registers no pool.
\<close>

theorem addController_unregistered:
  assumes "controller_pool profile handedness s = None"
  shows "addController gripMatrix handedness profile s = Inr s"
proof (cases "controllers s")
  case None
  then show ?thesis by (simp add: addController_def)
next
  case (Some cs)
  with assms have "map_of cs (controller_key profile handedness) = None"
    by (simp add: controller_pool_def)
  with Some show ?thesis by (simp add: addController_def)
qed

theorem addController_unregistered_witness:
  "controller_pool ''profileA'' HandRight scene1 = None
   \<and> addController 7 HandRight ''profileA'' scene1 = Inr scene1"
proof -
  have u: "controller_pool ''profileA'' HandRight scene1 = None"
    by (simp add: controller_pool_def scene1_def scene0_def setControllerMesh_def addNode_def
        InputRenderer_constructor_def controller_key_def Let_def)
  from u addController_unregistered [OF u, of 7] show ?thesis by blast
qed

section \<open>hideController\<close>

lemma forget_controller_simps:
  "nodes (forget_controller c) = nodes c"
  "activeCount (forget_controller c) = activeCount c"
  "forget_controller (c\<lparr>nodes := ns\<rparr>) = (forget_controller c)\<lparr>nodes := ns\<rparr>"
  "forget_controller (c\<lparr>activeCount := a\<rparr>) = (forget_controller c)\<lparr>activeCount := a\<rparr>"
  "forget_controller (c\<lparr>controller_visible := v\<rparr>) = forget_controller c"
  "forget_controller \<lparr>nodes = ns, activeCount = a, controller_visible = v\<rparr>
     = \<lparr>nodes = ns, activeCount = a, controller_visible = None\<rparr>"
  by (simp_all add: forget_controller_def)

lemma map_of_forget:
  "map_of (forget_registry cs) k = map_option forget_controller (map_of cs k)"
  by (induction cs) (auto simp: forget_registry_def)

lemma update_forget:
  "AList.update k (forget_controller c) (forget_registry cs) = forget_registry (AList.update k c cs)"
  by (induction cs) (auto simp: forget_registry_def)

lemma update_forget_same:
  "map_of cs k = Some c \<Longrightarrow>
   forget_registry (AList.update k (c\<lparr>controller_visible := v\<rparr>) cs) = forget_registry cs"
  by (induction cs) (auto simp: forget_registry_def forget_controller_def)

lemma forget_visible_simps:
  "controllers (forget_visible s) = map_option forget_registry (controllers s)"
  "lasers (forget_visible s) = lasers s"
  "cursors (forget_visible s) = cursors s"
  "activeLasers (forget_visible s) = activeLasers s"
  "activeCursors (forget_visible s) = activeCursors s"
  "blurred (forget_visible s) = blurred s"
  "renderer (forget_visible s) = renderer s"
  "children (forget_visible s) = children s"
  "store (forget_visible s) = store s"
  "maxInputElements (forget_visible s) = maxInputElements s"
  "forget_visible (s\<lparr>store := h\<rparr>) = (forget_visible s)\<lparr>store := h\<rparr>"
  "forget_visible (s\<lparr>children := ch\<rparr>) = (forget_visible s)\<lparr>children := ch\<rparr>"
  "forget_visible (s\<lparr>lasers := l\<rparr>) = (forget_visible s)\<lparr>lasers := l\<rparr>"
  "forget_visible (s\<lparr>cursors := l\<rparr>) = (forget_visible s)\<lparr>cursors := l\<rparr>"
  "forget_visible (s\<lparr>activeLasers := a\<rparr>) = (forget_visible s)\<lparr>activeLasers := a\<rparr>"
  "forget_visible (s\<lparr>activeCursors := a\<rparr>) = (forget_visible s)\<lparr>activeCursors := a\<rparr>"
  "forget_visible (s\<lparr>activeControllers := a\<rparr>) = (forget_visible s)\<lparr>activeControllers := a\<rparr>"
  "forget_visible (s\<lparr>blurred := b\<rparr>) = (forget_visible s)\<lparr>blurred := b\<rparr>"
  "forget_visible (s\<lparr>controllers := Some cs\<rparr>) = (forget_visible s)\<lparr>controllers := Some (forget_registry cs)\<rparr>"
  "forget_visible (s\<lparr>controllers := None\<rparr>) = (forget_visible s)\<lparr>controllers := None\<rparr>"
  by (simp_all add: forget_visible_def)

lemma forget_hideController: "forget_visible (hideController handedness profile s) = forget_visible s"
  by (simp add: hideController_def forget_visible_def update_forget_same split: option.splits)

lemma forget_addNode: "addNode n (forget_visible s) = forget_visible (addNode n s)"
  by (simp add: addNode_def forget_visible_simps)

lemma forget_clone: "clone n (forget_visible s) = apsnd forget_visible (clone n s)"
  by (simp add: clone_def forget_visible_simps)

lemma forget_new_Node: "new_Node m (forget_visible s) = apsnd forget_visible (new_Node m s)"
  by (simp add: new_Node_def forget_visible_simps)

lemma forget_setControllerMesh:
  "setControllerMesh n h p (forget_visible s) = forget_visible (setControllerMesh n h p s)"
proof -
  have "AList.update k \<lparr>nodes = [n], activeCount = 0, controller_visible = None\<rparr> (forget_registry cs)
     = forget_registry (AList.update k \<lparr>nodes = [n], activeCount = 0, controller_visible = None\<rparr> cs)" for k cs
    using update_forget[of k "\<lparr>nodes = [n], activeCount = 0, controller_visible = None\<rparr>" cs]
    by (simp add: forget_controller_simps)
  moreover have "forget_registry [] = []"
    "forget_registry [(k, c)] = [(k, forget_controller c)]" for k c
    by (simp_all add: forget_registry_def)
  ultimately show ?thesis
    by (cases "controllers s")
       (simp_all add: setControllerMesh_def Let_def forget_visible_simps forget_addNode[symmetric]
          forget_controller_simps)
qed

lemma next_controllerNode_forget:
  "next_controllerNode (forget_controller c) (forget_visible s)
     = map_sum id (\<lambda>(n, c', s'). (n, forget_controller c', forget_visible s')) (next_controllerNode c s)"
  by (simp add: next_controllerNode_def forget_controller_simps forget_clone forget_addNode
      split_beta split: list.splits)

lemma next_controllerNode_frame:
  "next_controllerNode c s = Inr (n, c1, s2) \<Longrightarrow> controllers s2 = controllers s"
  by (auto simp: next_controllerNode_def clone_def addNode_def split: if_splits list.splits)

lemma forget_addController:
  "addController g h p (forget_visible s) = map_sum id forget_visible (addController g h p s)"
proof (cases "controllers s")
  case None
  then show ?thesis by (simp add: addController_def forget_visible_simps)
next
  case (Some cs)
  show ?thesis
  proof (cases "map_of cs (controller_key p h)")
    case None
    with Some show ?thesis by (simp add: addController_def forget_visible_simps map_of_forget)
  next
    case c: (Some c)
    show ?thesis
    proof (cases "next_controllerNode c s")
      case (Inl e)
      with Some c next_controllerNode_forget[of c s] show ?thesis
        by (simp add: addController_def map_of_forget forget_visible_simps)
    next
      case (Inr r)
      obtain n c1 s2 where r: "r = (n, c1, s2)" by (cases r) auto
      from Some c Inr r next_controllerNode_forget[of c s] show ?thesis
        by (simp add: addController_def map_of_forget forget_visible_simps Let_def
            forget_controller_simps update_forget[symmetric])
    qed
  qed
qed

lemma forget_laser_mesh_if_needed:
  "laser_mesh_if_needed (forget_visible s) = forget_visible (laser_mesh_if_needed s)"
  by (simp add: laser_mesh_if_needed_def createLaserMesh_def forget_new_Node forget_visible_simps
      forget_addNode[symmetric] split_beta split: option.splits)

lemma forget_next_laser:
  "next_laser (forget_visible s) = apsnd forget_visible (next_laser s)"
  by (simp add: next_laser_def forget_clone forget_visible_simps
      forget_addNode split_beta split: option.splits list.splits)

lemma forget_addLaserPointer:
  "addLaserPointer t (forget_visible s) = map_sum id forget_visible (addLaserPointer t s)"
  by (simp add: addLaserPointer_def forget_laser_mesh_if_needed forget_next_laser forget_visible_simps
      split_beta Let_def split: option.splits)

lemma forget_cursor_mesh_if_needed:
  "cursor_mesh_if_needed (forget_visible s) = forget_visible (cursor_mesh_if_needed s)"
  by (simp add: cursor_mesh_if_needed_def createCursorMesh_def forget_new_Node forget_visible_simps
      forget_addNode[symmetric] split_beta split: option.splits)

lemma forget_next_cursor:
  "next_cursor (forget_visible s) = map_sum id (apsnd forget_visible) (next_cursor s)"
  by (simp add: next_cursor_def forget_clone forget_visible_simps
      forget_addNode split_beta split: option.splits list.splits)

lemma forget_addCursor:
  "addCursor t (forget_visible s) = map_sum id forget_visible (addCursor t s)"
  by (simp add: addCursor_def forget_cursor_mesh_if_needed forget_next_cursor forget_visible_simps
      split_beta Let_def split: sum.splits)

lemma reset_controllers_forget:
  "reset_controllers (forget_registry cs) h
     = (forget_registry (fst (reset_controllers cs h)), snd (reset_controllers cs h))"
  by (induction cs arbitrary: h)
     (auto simp: forget_registry_def forget_controller_def split: prod.splits)

lemma forget_reset:
  "reset opts (forget_visible s) = forget_visible (reset opts s)"
  by (simp add: reset_def reset_controller_pools_def reset_laser_pool_def reset_cursor_pool_def
      Let_def reset_controllers_forget forget_visible_simps split_beta
      split: option.splits)

lemma forget_onRendererChanged:
  "onRendererChanged r (forget_visible s) = forget_visible (onRendererChanged r s)"
  by (simp add: onRendererChanged_def forget_visible_simps)

lemma forget_visibilitychange:
  "visibilitychange v (forget_visible s) = forget_visible (visibilitychange v s)"
  by (simp add: visibilitychange_def forget_visible_simps)

lemma controller_pool_forget:
  "controller_pool p h (forget_visible s) = map_option forget_controller (controller_pool p h s)"
  by (cases "controllers s") (simp_all add: controller_pool_def forget_visible_simps map_of_forget)

lemma forget_eq_pool:
  assumes "forget_visible s = forget_visible t"
  shows "map_option nodes (controller_pool p h s) = map_option nodes (controller_pool p h t)"
    and "map_option activeCount (controller_pool p h s)
         = map_option activeCount (controller_pool p h t)"
proof -
  have "map_option forget_controller (controller_pool p h s)
      = map_option forget_controller (controller_pool p h t)"
    using assms controller_pool_forget[of p h s] controller_pool_forget[of p h t] by simp
  then have "map_option (nodes \<circ> forget_controller) (controller_pool p h s)
           = map_option (nodes \<circ> forget_controller) (controller_pool p h t)"
    and "map_option (activeCount \<circ> forget_controller) (controller_pool p h s)
         = map_option (activeCount \<circ> forget_controller) (controller_pool p h t)"
    by (metis option.map_comp)+
  then show "map_option nodes (controller_pool p h s) = map_option nodes (controller_pool p h t)"
    and "map_option activeCount (controller_pool p h s)
         = map_option activeCount (controller_pool p h t)"
    by (simp_all add: comp_def forget_controller_simps)
qed

lemma controller_pool_hideController:
  assumes "controller_pool profile handedness s = Some c"
  shows "controller_pool profile handedness (hideController handedness profile s)
         = Some (c\<lparr>controller_visible := Some True\<rparr>)"
  using assms
  by (cases "controllers s") (simp_all add: controller_pool_def hideController_def update_conv')

lemma hideController_frame:
  "store (hideController handedness profile s) = store s"
  "children (hideController handedness profile s) = children s"
  "lasers (hideController handedness profile s) = lasers s"
  "cursors (hideController handedness profile s) = cursors s"
  "activeLasers (hideController handedness profile s) = activeLasers s"
  "activeCursors (hideController handedness profile s) = activeCursors s"
  "blurred (hideController handedness profile s) = blurred s"
  by (simp_all add: hideController_def split: option.splits)

text \<open>
  C10.  For a registered key, \<open>hideController\<close> writes to no node (the store, hence every
  visibility flag and transform, is unchanged) and leaves the nodes and the active count of
  every pool as they were; the pool of the key gets the property \<open>visible = true\<close>, and that
  is the whole difference (\<open>forget_visible\<close> gives the same renderer).  No other operation
  reads the property: run after \<open>hideController\<close> or without it, each operation fails or
  succeeds alike and yields the same renderer up to that property.
\<close>

theorem hideController_only_marks_pool:
  assumes "controller_pool profile handedness s = Some c"
  shows "store (hideController handedness profile s) = store s
       \<and> children (hideController handedness profile s) = children s
       \<and> lasers (hideController handedness profile s) = lasers s
       \<and> cursors (hideController handedness profile s) = cursors s
       \<and> controller_pool profile handedness (hideController handedness profile s)
           = Some (c\<lparr>controller_visible := Some True\<rparr>)
       \<and> map_option nodes (controller_pool p' h' (hideController handedness profile s))
           = map_option nodes (controller_pool p' h' s)
       \<and> map_option activeCount (controller_pool p' h' (hideController handedness profile s))
           = map_option activeCount (controller_pool p' h' s)
       \<and> forget_visible (hideController handedness profile s) = forget_visible s
       \<and> map_sum id forget_visible (addController g h' p' (hideController handedness profile s))
           = map_sum id forget_visible (addController g h' p' s)
       \<and> map_sum id forget_visible (addLaserPointer t (hideController handedness profile s))
           = map_sum id forget_visible (addLaserPointer t s)
       \<and> map_sum id forget_visible (addCursor pos (hideController handedness profile s))
           = map_sum id forget_visible (addCursor pos s)
       \<and> forget_visible (reset opts (hideController handedness profile s))
           = forget_visible (reset opts s)
       \<and> forget_visible (setControllerMesh n h' p' (hideController handedness profile s))
           = forget_visible (setControllerMesh n h' p' s)
       \<and> forget_visible (onRendererChanged r (hideController handedness profile s))
           = forget_visible (onRendererChanged r s)
       \<and> forget_visible (visibilitychange v (hideController handedness profile s))
           = forget_visible (visibilitychange v s)"
proof -
  let ?s' = "hideController handedness profile s"
  have f: "forget_visible ?s' = forget_visible s" by (rule forget_hideController)
  have "map_sum id forget_visible (addController g h' p' ?s')
      = map_sum id forget_visible (addController g h' p' s)"
    using f forget_addController[of g h' p' ?s'] forget_addController[of g h' p' s] by simp
  moreover have "map_sum id forget_visible (addLaserPointer t ?s')
      = map_sum id forget_visible (addLaserPointer t s)"
    using f forget_addLaserPointer[of t ?s'] forget_addLaserPointer[of t s] by simp
  moreover have "map_sum id forget_visible (addCursor pos ?s')
      = map_sum id forget_visible (addCursor pos s)"
    using f forget_addCursor[of pos ?s'] forget_addCursor[of pos s] by simp
  moreover have "forget_visible (reset opts ?s') = forget_visible (reset opts s)"
    using f forget_reset[of opts ?s'] forget_reset[of opts s] by simp
  moreover have "forget_visible (setControllerMesh n h' p' ?s')
      = forget_visible (setControllerMesh n h' p' s)"
    using f forget_setControllerMesh[of n h' p' ?s'] forget_setControllerMesh[of n h' p' s]
    by simp
  moreover have "forget_visible (onRendererChanged r ?s') = forget_visible (onRendererChanged r s)"
    using f forget_onRendererChanged[of r ?s'] forget_onRendererChanged[of r s] by simp
  moreover have "forget_visible (visibilitychange v ?s') = forget_visible (visibilitychange v s)"
    using f forget_visibilitychange[of v ?s'] forget_visibilitychange[of v s] by simp
  ultimately show ?thesis
    using f forget_eq_pool[OF f, of p' h'] controller_pool_hideController[OF assms]
    by (simp add: hideController_frame)
qed

theorem hideController_only_marks_pool_witness:
  "controller_pool ''profileA'' HandLeft scene2
     = Some \<lparr>nodes = [0], activeCount = 1, controller_visible = None\<rparr>
   \<and> store (hideController HandLeft ''profileA'' scene2) = store scene2
   \<and> controller_pool ''profileA'' HandLeft (hideController HandLeft ''profileA'' scene2)
       = Some \<lparr>nodes = [0], activeCount = 1, controller_visible = Some True\<rparr>
   \<and> map_sum id forget_visible
        (addController 7 HandLeft ''profileA'' (hideController HandLeft ''profileA'' scene2))
       = map_sum id forget_visible (addController 7 HandLeft ''profileA'' scene2)"
proof -
  have p: "controller_pool ''profileA'' HandLeft scene2
             = Some \<lparr>nodes = [0], activeCount = 1, controller_visible = None\<rparr>"
    by (simp add: renderer_defs node_defs scene_defs Let_def)
  from p hideController_only_marks_pool [OF p, of "''profileA''" HandLeft 7]
  show ?thesis by simp
qed

section \<open>Pool invariant: the store and single pools\<close>

lemma store_le_refl: "store_le h h"
  by (simp add: store_le_def)

lemma store_le_trans: "store_le h h' \<Longrightarrow> store_le h' h'' \<Longrightarrow> store_le h h''"
  by (auto simp: store_le_def)

lemma store_le_append: "store_le h (h @ vs)"
  by (simp add: store_le_def nth_append)

lemma store_le_set_visible: "store_le h (set_visible n b h)"
  by (cases "n < length h") (simp_all add: store_le_def set_visible_def nth_list_update)

lemma store_le_set_matrix: "store_le h (set_matrix n b h)"
  by (cases "n < length h") (simp_all add: store_le_def set_matrix_def nth_list_update)

lemma store_le_set_translation: "store_le h (set_translation n b h)"
  by (cases "n < length h") (simp_all add: store_le_def set_translation_def nth_list_update)

lemma length_hide_nodes: "length (hide_nodes ns h) = length h"
  by (induction ns arbitrary: h) (simp_all add: set_visible_def)

lemma nth_hide_nodes:
  "i < length h \<Longrightarrow>
   hide_nodes ns h ! i = (if i \<in> set ns then (h ! i)\<lparr>visible := False\<rparr> else h ! i)"
proof (induction ns arbitrary: h)
  case Nil
  then show ?case by simp
next
  case (Cons a ns)
  have "hide_nodes (a # ns) h ! i = hide_nodes ns (set_visible a False h) ! i" by simp
  also have "\<dots> = (if i \<in> set ns then (set_visible a False h ! i)\<lparr>visible := False\<rparr>
                    else set_visible a False h ! i)"
    using Cons.prems by (intro Cons.IH) (simp add: set_visible_def)
  also have "\<dots> = (if i \<in> set (a # ns) then (h ! i)\<lparr>visible := False\<rparr> else h ! i)"
    using Cons.prems by (cases "i = a") (simp_all add: set_visible_def)
  finally show ?case .
qed

lemma store_le_hide_nodes: "store_le h (hide_nodes ns h)"
  by (simp add: store_le_def length_hide_nodes nth_hide_nodes)

lemma hide_nodes_append: "hide_nodes (as @ bs) h = hide_nodes bs (hide_nodes as h)"
  by (induction as arbitrary: h) simp_all

lemma pool_ok_mono:
  assumes "store_le h h'" and "pool_ok m h ns a"
  shows "pool_ok m h' ns a"
proof -
  from assms(2) have ne: "ns \<noteq> []" and v: "\<forall>n \<in> set ns. n < length h \<and> mesh (h ! hd ns) = mesh (h ! n)"
    by (simp_all add: pool_ok_def)
  from ne have "hd ns \<in> set ns" by simp
  with v have hdv: "hd ns < length h" by blast
  have "n < length h' \<and> mesh (h' ! hd ns) = mesh (h' ! n)" if "n \<in> set ns" for n
  proof -
    from that v have n: "n < length h" "mesh (h ! hd ns) = mesh (h ! n)" by auto
    from assms(1) n(1) hdv have "mesh (h' ! n) = mesh (h ! n)" "mesh (h' ! hd ns) = mesh (h ! hd ns)"
      "length h \<le> length h'" by (simp_all add: store_le_def)
    with n show ?thesis by simp
  qed
  then have "\<forall>n \<in> set ns. n < length h' \<and> mesh (h' ! hd ns) = mesh (h' ! n)" by blast
  with assms(2) show ?thesis by (simp add: pool_ok_def)
qed

lemma registry_ok_mono: "store_le h h' \<Longrightarrow> registry_ok m h cs \<Longrightarrow> registry_ok m h' cs"
  by (auto simp: registry_ok_def intro: pool_ok_mono)

lemma registry_ok_update:
  "registry_ok m h cs \<Longrightarrow> pool_ok m h (nodes c) (activeCount c) \<Longrightarrow>
   registry_ok m h (AList.update k c cs)"
  by (induction cs) (auto simp: registry_ok_def)

lemma registry_ok_lookup:
  "registry_ok m h cs \<Longrightarrow> map_of cs k = Some c \<Longrightarrow> pool_ok m h (nodes c) (activeCount c)"
proof -
  assume r: "registry_ok m h cs" and l: "map_of cs k = Some c"
  from l have "(k, c) \<in> set cs" by (rule map_of_SomeD)
  with r have "pool_ok m h (nodes (snd (k, c))) (activeCount (snd (k, c)))"
    unfolding registry_ok_def by (rule bspec)
  then show ?thesis by simp
qed

lemma pool_ok_reset: "0 < m \<Longrightarrow> pool_ok m h ns a \<Longrightarrow> pool_ok m h ns 0"
  by (simp add: pool_ok_def)

lemma pool_ok_single: "0 < m \<Longrightarrow> n < length h \<Longrightarrow> pool_ok m h [n] 0"
  by (simp add: pool_ok_def)

lemma pool_ok_step:
  assumes "pool_ok m h ns a" and "a < length ns"
  shows "pool_ok m h ns ((a + 1) mod m)" and "ns ! a < length h"
proof -
  from assms(1) have m: "a < m" and v: "\<forall>n \<in> set ns. n < length h \<and> mesh (h ! hd ns) = mesh (h ! n)"
    by (simp_all add: pool_ok_def)
  have "(a + 1) mod m \<le> a + 1" by (rule mod_less_eq_dividend)
  also from assms(2) have "a + 1 \<le> length ns" by simp
  finally have "(a + 1) mod m \<le> length ns" .
  moreover from m have "(a + 1) mod m < m" by simp
  ultimately show "pool_ok m h ns ((a + 1) mod m)" using assms(1) by (simp add: pool_ok_def)
  from assms(2) have "ns ! a \<in> set ns" by simp
  with v show "ns ! a < length h" by blast
qed

lemma pool_ok_clone:
  assumes "pool_ok m h ns a" and "\<not> a < length ns"
  shows "pool_ok m (h @ [h ! hd ns]) (ns @ [length h]) ((a + 1) mod m)"
proof -
  from assms(1) have ne: "ns \<noteq> []" and d: "distinct ns"
    and v: "\<forall>n \<in> set ns. n < length h \<and> mesh (h ! hd ns) = mesh (h ! n)" and m: "a < m"
    and le: "a \<le> length ns"
    by (simp_all add: pool_ok_def)
  from le assms(2) have a: "a = length ns" by simp
  from ne have hdv: "hd ns \<in> set ns" by simp
  have fresh: "length h \<notin> set ns" using v by auto
  have le': "(a + 1) mod m \<le> length ns + 1"
    unfolding a by (rule mod_less_eq_dividend)
  have lt: "(a + 1) mod m < m" using m by simp
  have valid: "\<forall>n \<in> set (ns @ [length h]). n < length (h @ [h ! hd ns])
       \<and> mesh ((h @ [h ! hd ns]) ! hd (ns @ [length h])) = mesh ((h @ [h ! hd ns]) ! n)"
    using v hdv ne by (auto simp: nth_append)
  show ?thesis unfolding pool_ok_def
  proof (intro conjI)
    show "ns @ [length h] \<noteq> []" by simp
    show "distinct (ns @ [length h])" using d fresh by simp
    show "\<forall>n \<in> set (ns @ [length h]). n < length (h @ [h ! hd ns])
       \<and> mesh ((h @ [h ! hd ns]) ! hd (ns @ [length h])) = mesh ((h @ [h ! hd ns]) ! n)"
      by (rule valid)
    show "(a + 1) mod m < m" by (rule lt)
    show "(a + 1) mod m \<le> length (ns @ [length h])" using le' by simp
  qed
qed

section \<open>Pool invariant: addController\<close>

lemma addNode_fields:
  "store (addNode n s) = store s"
  "controllers (addNode n s) = controllers s"
  "lasers (addNode n s) = lasers s"
  "cursors (addNode n s) = cursors s"
  "activeLasers (addNode n s) = activeLasers s"
  "activeCursors (addNode n s) = activeCursors s"
  "maxInputElements (addNode n s) = maxInputElements s"
  "renderer (addNode n s) = renderer s"
  "blurred (addNode n s) = blurred s"
  by (simp_all add: addNode_def)

lemma registry_fields:
  "registry (s\<lparr>store := h\<rparr>) = registry s"
  "registry (s\<lparr>children := ch\<rparr>) = registry s"
  "registry (s\<lparr>lasers := l\<rparr>) = registry s"
  "registry (s\<lparr>cursors := l\<rparr>) = registry s"
  "registry (s\<lparr>activeLasers := a\<rparr>) = registry s"
  "registry (s\<lparr>activeCursors := a\<rparr>) = registry s"
  "registry (s\<lparr>blurred := b\<rparr>) = registry s"
  "registry (s\<lparr>renderer := r\<rparr>) = registry s"
  "registry (s\<lparr>controllers := Some cs\<rparr>) = cs"
  "registry (s\<lparr>controllers := None\<rparr>) = []"
  "registry (addNode n s) = registry s"
  by (simp_all add: registry_def addNode_def)

lemma pool_inv_addNode: "pool_inv (addNode n s) = pool_inv s"
  by (simp add: pool_inv_def addNode_fields registry_fields)

lemma pool_inv_blurred: "pool_inv (s\<lparr>blurred := b\<rparr>) = pool_inv s"
  by (simp add: pool_inv_def registry_fields)

lemma laser_pool_ok_mono:
  "store_le h h' \<Longrightarrow> laser_pool_ok m h r pool a \<Longrightarrow> laser_pool_ok m h' r pool a"
  by (cases pool) (auto simp: laser_pool_ok_def intro: pool_ok_mono)

lemma cursor_pool_ok_mono:
  "store_le h h' \<Longrightarrow> cursor_pool_ok m h pool a \<Longrightarrow> cursor_pool_ok m h' pool a"
  by (cases pool) (auto simp: cursor_pool_ok_def intro: pool_ok_mono)

lemma pool_inv_store:
  assumes "pool_inv s" and "store_le (store s) h'"
  shows "pool_inv (s\<lparr>store := h'\<rparr>)"
  using assms
  by (simp add: pool_inv_def registry_fields registry_ok_mono[OF assms(2)]
      laser_pool_ok_mono[OF assms(2)] cursor_pool_ok_mono[OF assms(2)])

lemma pool_inv_controllers:
  assumes "pool_inv s" and "pool_ok (maxInputElements s) (store s) (nodes c) (activeCount c)"
  shows "pool_inv (s\<lparr>controllers := Some (AList.update k c (registry s))\<rparr>)"
  using assms by (simp add: pool_inv_def registry_fields registry_ok_update)

lemma pool_inv_lasers:
  assumes "pool_inv s" and "pool_ok (maxInputElements s) (store s) ls a"
  shows "pool_inv (s\<lparr>lasers := Some ls, activeLasers := a\<rparr>)"
  using assms by (simp add: pool_inv_def registry_fields laser_pool_ok_def)

lemma pool_inv_cursors:
  assumes "pool_inv s" and "pool_ok (maxInputElements s) (store s) cs a"
  shows "pool_inv (s\<lparr>cursors := Some cs, activeCursors := a\<rparr>)"
  using assms by (simp add: pool_inv_def registry_fields cursor_pool_ok_def)

lemma pool_inv_lookup:
  assumes "pool_inv s" and "controllers s = Some cs" and "map_of cs k = Some c"
  shows "pool_ok (maxInputElements s) (store s) (nodes c) (activeCount c)"
proof -
  from assms(1,2) have "registry_ok (maxInputElements s) (store s) cs"
    by (simp add: pool_inv_def registry_def)
  then show ?thesis using assms(3) by (rule registry_ok_lookup)
qed

text \<open>The two ways \<open>addController\<close> can succeed, and the one way it fails.\<close>

lemma addController_reuse:
  assumes "controllers s = Some cs" and "\<not> blurred s"
    and "map_of cs (controller_key profile handedness) = Some c"
    and "activeCount c < length (nodes c)"
  shows "addController gripMatrix handedness profile s =
     Inr (s\<lparr>controllers := Some (AList.update (controller_key profile handedness)
                (c\<lparr>activeCount := (activeCount c + 1) mod maxInputElements s\<rparr>) cs),
            store := set_visible (nodes c ! activeCount c) True
                       (set_matrix (nodes c ! activeCount c) gripMatrix (store s))\<rparr>)"
  using assms by (simp add: addController_def next_controllerNode_def)

lemma addController_clone:
  assumes "controllers s = Some cs" and "\<not> blurred s"
    and "map_of cs (controller_key profile handedness) = Some c"
    and "\<not> activeCount c < length (nodes c)" and "nodes c \<noteq> []"
  shows "addController gripMatrix handedness profile s =
     Inr ((addNode (length (store s)) (s\<lparr>store := store s @ [store s ! hd (nodes c)]\<rparr>))
           \<lparr>controllers := Some (AList.update (controller_key profile handedness)
                (c\<lparr>nodes := nodes c @ [length (store s)],
                   activeCount := (activeCount c + 1) mod maxInputElements s\<rparr>) cs),
            store := set_visible (length (store s)) True
                       (set_matrix (length (store s)) gripMatrix
                          (store s @ [store s ! hd (nodes c)]))\<rparr>)"
  using assms
  by (cases "nodes c")
     (simp_all add: addController_def next_controllerNode_def clone_def addNode_fields Let_def)

lemma addController_empty:
  assumes "controllers s = Some cs" and "\<not> blurred s"
    and "map_of cs (controller_key profile handedness) = Some c"
    and "nodes c = []"
  shows "addController gripMatrix handedness profile s = Inl TypeError"
  using assms by (simp add: addController_def next_controllerNode_def)

lemma pool_inv_addController:
  assumes "pool_inv s"
  shows "pool_inv (state_after s (addController gripMatrix handedness profile s))"
proof (cases "controllers s")
  case None
  with assms show ?thesis by (simp add: addController_def state_after_def)
next
  case (Some cs)
  let ?k = "controller_key profile handedness"
  let ?m = "maxInputElements s"
  from Some have reg: "registry s = cs" by (simp add: registry_def)
  show ?thesis
  proof (cases "blurred s \<or> map_of cs ?k = None")
    case True
    with Some assms show ?thesis by (auto simp: addController_def state_after_def)
  next
    case False
    then obtain c where nb: "\<not> blurred s" and c: "map_of cs ?k = Some c" by auto
    from assms Some c have ok: "pool_ok ?m (store s) (nodes c) (activeCount c)"
      by (rule pool_inv_lookup)
    then have ne: "nodes c \<noteq> []" by (simp add: pool_ok_def)
    show ?thesis
    proof (cases "activeCount c < length (nodes c)")
      case True
      let ?c2 = "c\<lparr>activeCount := (activeCount c + 1) mod ?m\<rparr>"
      let ?n = "nodes c ! activeCount c"
      have "pool_ok ?m (store s) (nodes ?c2) (activeCount ?c2)"
        using pool_ok_step(1)[OF ok True] by simp
      with assms have "pool_inv (s\<lparr>controllers := Some (AList.update ?k ?c2 (registry s))\<rparr>)"
        by (rule pool_inv_controllers)
      moreover have "store_le (store s) (set_visible ?n True (set_matrix ?n gripMatrix (store s)))"
        by (rule store_le_trans[OF store_le_set_matrix store_le_set_visible])
      ultimately have "pool_inv (s\<lparr>controllers := Some (AList.update ?k ?c2 (registry s)),
            store := set_visible ?n True (set_matrix ?n gripMatrix (store s))\<rparr>)"
        using pool_inv_store[of "s\<lparr>controllers := Some (AList.update ?k ?c2 (registry s))\<rparr>"]
        by simp
      then show ?thesis
        using addController_reuse[OF Some nb c True, of gripMatrix] reg
        by (simp add: state_after_def)
    next
      case False
      let ?L = "length (store s)"
      let ?h1 = "store s @ [store s ! hd (nodes c)]"
      let ?c2 = "c\<lparr>nodes := nodes c @ [?L], activeCount := (activeCount c + 1) mod ?m\<rparr>"
      let ?s1 = "addNode ?L (s\<lparr>store := ?h1\<rparr>)"
      have "pool_inv (s\<lparr>store := ?h1\<rparr>)"
        using assms store_le_append by (rule pool_inv_store)
      then have inv1: "pool_inv ?s1" by (simp add: pool_inv_addNode)
      have "pool_ok ?m ?h1 (nodes ?c2) (activeCount ?c2)"
        using pool_ok_clone[OF ok False] by simp
      then have "pool_ok (maxInputElements ?s1) (store ?s1) (nodes ?c2) (activeCount ?c2)"
        by (simp add: addNode_fields)
      with inv1 have "pool_inv (?s1\<lparr>controllers := Some (AList.update ?k ?c2 (registry ?s1))\<rparr>)"
        by (rule pool_inv_controllers)
      moreover have "store_le (store ?s1) (set_visible ?L True (set_matrix ?L gripMatrix ?h1))"
        using store_le_trans[OF store_le_set_matrix store_le_set_visible]
        by (simp add: addNode_fields)
      ultimately have "pool_inv (?s1\<lparr>controllers := Some (AList.update ?k ?c2 (registry ?s1)),
            store := set_visible ?L True (set_matrix ?L gripMatrix ?h1)\<rparr>)"
        using pool_inv_store[of "?s1\<lparr>controllers := Some (AList.update ?k ?c2 (registry ?s1))\<rparr>"]
        by (simp add: addNode_fields)
      then show ?thesis
        using addController_clone[OF Some nb c False ne, of gripMatrix] reg
        by (simp add: state_after_def registry_fields)
    qed
  qed
qed

section \<open>Pool invariant: addLaserPointer\<close>

text \<open>The lazy construction of the laser template, and the ways \<open>addLaserPointer\<close> ends.\<close>

lemma laser_mesh_if_needed_skip:
  "lasers s \<noteq> None \<or> renderer s = None \<Longrightarrow> laser_mesh_if_needed s = s"
  by (auto simp: laser_mesh_if_needed_def split: option.splits)

lemma laser_mesh_if_needed_create:
  assumes "lasers s = None" and "renderer s = Some r"
  shows "laser_mesh_if_needed s =
     addNode (length (store s))
       (s\<lparr>store := store s @ [\<lparr>mesh = LaserMesh r, matrix = None, translation = None,
                                  visible = True\<rparr>],
          lasers := Some [length (store s)]\<rparr>)"
  using assms by (simp add: laser_mesh_if_needed_def createLaserMesh_def new_Node_def)

lemma addLaserPointer_missing:
  assumes "\<not> blurred s" and "lasers (laser_mesh_if_needed s) = None"
  shows "addLaserPointer rigidTransform s =
     Inr (laser_mesh_if_needed s
           \<lparr>activeLasers := (activeLasers (laser_mesh_if_needed s) + 1)
                              mod maxInputElements (laser_mesh_if_needed s)\<rparr>)"
  using assms by (simp add: addLaserPointer_def next_laser_def)

lemma addLaserPointer_reuse:
  assumes "\<not> blurred s" and "lasers (laser_mesh_if_needed s) = Some ls"
    and "activeLasers (laser_mesh_if_needed s) < length ls"
  shows "addLaserPointer rigidTransform s =
     Inr (laser_mesh_if_needed s
           \<lparr>activeLasers := (activeLasers (laser_mesh_if_needed s) + 1)
                              mod maxInputElements (laser_mesh_if_needed s),
            store := set_visible (ls ! activeLasers (laser_mesh_if_needed s)) True
                       (set_matrix (ls ! activeLasers (laser_mesh_if_needed s))
                          (rt_matrix rigidTransform) (store (laser_mesh_if_needed s)))\<rparr>)"
  using assms by (simp add: addLaserPointer_def next_laser_def)

lemma addLaserPointer_clone:
  assumes "\<not> blurred s" and "lasers (laser_mesh_if_needed s) = Some ls"
    and "\<not> activeLasers (laser_mesh_if_needed s) < length ls" and "ls \<noteq> []"
  shows "addLaserPointer rigidTransform s =
     Inr ((addNode (length (store (laser_mesh_if_needed s)))
             (laser_mesh_if_needed s
                \<lparr>store := store (laser_mesh_if_needed s)
                           @ [store (laser_mesh_if_needed s) ! hd ls]\<rparr>))
           \<lparr>lasers := Some (ls @ [length (store (laser_mesh_if_needed s))]),
            activeLasers := (activeLasers (laser_mesh_if_needed s) + 1)
                              mod maxInputElements (laser_mesh_if_needed s),
            store := set_visible (length (store (laser_mesh_if_needed s))) True
                       (set_matrix (length (store (laser_mesh_if_needed s)))
                          (rt_matrix rigidTransform)
                          (store (laser_mesh_if_needed s)
                           @ [store (laser_mesh_if_needed s) ! hd ls]))\<rparr>)"
  using assms
  by (cases ls) (simp_all add: addLaserPointer_def next_laser_def clone_def addNode_fields)

lemma pool_inv_laser_mesh_if_needed:
  assumes "pool_inv s"
  shows "pool_inv (laser_mesh_if_needed s)"
proof (cases "lasers s \<noteq> None \<or> renderer s = None")
  case True
  with assms show ?thesis by (simp add: laser_mesh_if_needed_skip)
next
  case False
  then obtain r where l: "lasers s = None" and r: "renderer s = Some r" by auto
  let ?h = "store s @ [\<lparr>mesh = LaserMesh r, matrix = None, translation = None, visible = True\<rparr>]"
  from assms l r have a0: "activeLasers s = 0" and m: "0 < maxInputElements s"
    by (simp_all add: pool_inv_def laser_pool_ok_def)
  have "pool_inv (s\<lparr>store := ?h\<rparr>)"
    using assms store_le_append by (rule pool_inv_store)
  moreover have "pool_ok (maxInputElements s) ?h [length (store s)] 0"
    using m by (simp add: pool_ok_def)
  ultimately have "pool_inv (s\<lparr>store := ?h, lasers := Some [length (store s)]\<rparr>)"
    using a0 by (simp add: pool_inv_def registry_fields laser_pool_ok_def)
  then show ?thesis
    by (simp add: laser_mesh_if_needed_create[OF l r] pool_inv_addNode)
qed

lemma pool_inv_activeLasers:
  assumes "pool_inv s"
    and "laser_pool_ok (maxInputElements s) (store s) (renderer s) (lasers s) a"
  shows "pool_inv (s\<lparr>activeLasers := a\<rparr>)"
  using assms by (simp add: pool_inv_def registry_fields)

lemma pool_inv_addLaserPointer:
  assumes "pool_inv s"
  shows "pool_inv (state_after s (addLaserPointer rigidTransform s))"
proof (cases "blurred s")
  case True
  with assms show ?thesis by (simp add: addLaserPointer_def state_after_def)
next
  case nb: False
  let ?s1 = "laser_mesh_if_needed s"
  let ?m = "maxInputElements ?s1"
  let ?a = "activeLasers ?s1"
  from assms have inv1: "pool_inv ?s1" by (rule pool_inv_laser_mesh_if_needed)
  then have m: "0 < ?m"
    and lok: "laser_pool_ok ?m (store ?s1) (renderer ?s1) (lasers ?s1) ?a"
    by (simp_all add: pool_inv_def)
  show ?thesis
  proof (cases "lasers ?s1")
    case None
    have "renderer ?s1 = None"
    proof (cases "lasers s \<noteq> None \<or> renderer s = None")
      case True
      with None show ?thesis by (auto simp: laser_mesh_if_needed_skip)
    next
      case False
      then obtain r where "lasers s = None" "renderer s = Some r" by auto
      with None show ?thesis
        by (simp add: laser_mesh_if_needed_create addNode_fields)
    qed
    with None m have "laser_pool_ok ?m (store ?s1) (renderer ?s1) (lasers ?s1) ((?a + 1) mod ?m)"
      by (simp add: laser_pool_ok_def)
    with inv1 have "pool_inv (?s1\<lparr>activeLasers := (?a + 1) mod ?m\<rparr>)"
      by (rule pool_inv_activeLasers)
    then show ?thesis
      using addLaserPointer_missing[OF nb None, of rigidTransform]
      by (simp add: state_after_def)
  next
    case (Some ls)
    with lok have ok: "pool_ok ?m (store ?s1) ls ?a" by (simp add: laser_pool_ok_def)
    then have ne: "ls \<noteq> []" by (simp add: pool_ok_def)
    show ?thesis
    proof (cases "?a < length ls")
      case True
      let ?n = "ls ! ?a"
      have "pool_ok ?m (store ?s1) ls ((?a + 1) mod ?m)"
        using ok True by (rule pool_ok_step(1))
      with inv1 have "pool_inv (?s1\<lparr>lasers := Some ls, activeLasers := (?a + 1) mod ?m\<rparr>)"
        by (rule pool_inv_lasers)
      moreover have "store_le (store ?s1)
          (set_visible ?n True (set_matrix ?n (rt_matrix rigidTransform) (store ?s1)))"
        by (rule store_le_trans[OF store_le_set_matrix store_le_set_visible])
      ultimately have "pool_inv (?s1\<lparr>lasers := Some ls, activeLasers := (?a + 1) mod ?m,
            store := set_visible ?n True (set_matrix ?n (rt_matrix rigidTransform) (store ?s1))\<rparr>)"
        using pool_inv_store[of "?s1\<lparr>lasers := Some ls, activeLasers := (?a + 1) mod ?m\<rparr>"]
        by simp
      moreover have "?s1\<lparr>lasers := Some ls\<rparr> = ?s1" using Some by simp
      ultimately show ?thesis
        using addLaserPointer_reuse[OF nb Some True, of rigidTransform]
        by (simp add: state_after_def)
    next
      case False
      let ?L = "length (store ?s1)"
      let ?h1 = "store ?s1 @ [store ?s1 ! hd ls]"
      let ?s2 = "addNode ?L (?s1\<lparr>store := ?h1\<rparr>)"
      have "pool_inv (?s1\<lparr>store := ?h1\<rparr>)"
        using inv1 store_le_append by (rule pool_inv_store)
      then have inv2: "pool_inv ?s2" by (simp add: pool_inv_addNode)
      have "pool_ok ?m ?h1 (ls @ [?L]) ((?a + 1) mod ?m)"
        using ok False by (rule pool_ok_clone)
      then have "pool_ok (maxInputElements ?s2) (store ?s2) (ls @ [?L]) ((?a + 1) mod ?m)"
        by (simp add: addNode_fields)
      with inv2 have "pool_inv (?s2\<lparr>lasers := Some (ls @ [?L]), activeLasers := (?a + 1) mod ?m\<rparr>)"
        by (rule pool_inv_lasers)
      moreover have "store_le (store ?s2)
          (set_visible ?L True (set_matrix ?L (rt_matrix rigidTransform) ?h1))"
        using store_le_trans[OF store_le_set_matrix store_le_set_visible]
        by (simp add: addNode_fields)
      ultimately have "pool_inv (?s2\<lparr>lasers := Some (ls @ [?L]), activeLasers := (?a + 1) mod ?m,
            store := set_visible ?L True (set_matrix ?L (rt_matrix rigidTransform) ?h1)\<rparr>)"
        using pool_inv_store[of "?s2\<lparr>lasers := Some (ls @ [?L]), activeLasers := (?a + 1) mod ?m\<rparr>"]
        by (simp add: addNode_fields)
      then show ?thesis
        using addLaserPointer_clone[OF nb Some False ne, of rigidTransform]
        by (simp add: state_after_def)
    qed
  qed
qed

section \<open>Pool invariant: addCursor, registration and reset\<close>

text \<open>The same for the cursor pool; here a missing or empty pool is the \<open>TypeError\<close>.\<close>

lemma cursor_mesh_if_needed_skip:
  "cursors s \<noteq> None \<or> renderer s = None \<Longrightarrow> cursor_mesh_if_needed s = s"
  by (auto simp: cursor_mesh_if_needed_def split: option.splits)

lemma cursor_mesh_if_needed_create:
  assumes "cursors s = None" and "renderer s = Some r"
  shows "cursor_mesh_if_needed s =
     addNode (length (store s))
       (s\<lparr>store := store s @ [\<lparr>mesh = CursorMesh r, matrix = None, translation = None,
                                  visible = True\<rparr>],
          cursors := Some [length (store s)]\<rparr>)"
  using assms by (simp add: cursor_mesh_if_needed_def createCursorMesh_def new_Node_def)

lemma addCursor_missing:
  assumes "\<not> blurred s" and "cursors (cursor_mesh_if_needed s) = None"
  shows "addCursor cursorPos s = Inl TypeError"
  using assms by (simp add: addCursor_def next_cursor_def)

lemma addCursor_empty:
  assumes "\<not> blurred s" and "cursors (cursor_mesh_if_needed s) = Some []"
  shows "addCursor cursorPos s = Inl TypeError"
  using assms by (simp add: addCursor_def next_cursor_def)

lemma addCursor_reuse:
  assumes "\<not> blurred s" and "cursors (cursor_mesh_if_needed s) = Some cs"
    and "activeCursors (cursor_mesh_if_needed s) < length cs"
  shows "addCursor cursorPos s =
     Inr (cursor_mesh_if_needed s
           \<lparr>activeCursors := (activeCursors (cursor_mesh_if_needed s) + 1)
                              mod maxInputElements (cursor_mesh_if_needed s),
            store := set_visible (cs ! activeCursors (cursor_mesh_if_needed s)) True
                       (set_translation (cs ! activeCursors (cursor_mesh_if_needed s))
                          cursorPos (store (cursor_mesh_if_needed s)))\<rparr>)"
  using assms by (simp add: addCursor_def next_cursor_def)

lemma addCursor_clone:
  assumes "\<not> blurred s" and "cursors (cursor_mesh_if_needed s) = Some cs"
    and "\<not> activeCursors (cursor_mesh_if_needed s) < length cs" and "cs \<noteq> []"
  shows "addCursor cursorPos s =
     Inr ((addNode (length (store (cursor_mesh_if_needed s)))
             (cursor_mesh_if_needed s
                \<lparr>store := store (cursor_mesh_if_needed s)
                           @ [store (cursor_mesh_if_needed s) ! hd cs]\<rparr>))
           \<lparr>cursors := Some (cs @ [length (store (cursor_mesh_if_needed s))]),
            activeCursors := (activeCursors (cursor_mesh_if_needed s) + 1)
                              mod maxInputElements (cursor_mesh_if_needed s),
            store := set_visible (length (store (cursor_mesh_if_needed s))) True
                       (set_translation (length (store (cursor_mesh_if_needed s)))
                          cursorPos
                          (store (cursor_mesh_if_needed s)
                           @ [store (cursor_mesh_if_needed s) ! hd cs]))\<rparr>)"
  using assms
  by (cases cs) (simp_all add: addCursor_def next_cursor_def clone_def addNode_fields)

lemma pool_inv_cursor_mesh_if_needed:
  assumes "pool_inv s"
  shows "pool_inv (cursor_mesh_if_needed s)"
proof (cases "cursors s \<noteq> None \<or> renderer s = None")
  case True
  with assms show ?thesis by (simp add: cursor_mesh_if_needed_skip)
next
  case False
  then obtain r where l: "cursors s = None" and r: "renderer s = Some r" by auto
  let ?h = "store s @ [\<lparr>mesh = CursorMesh r, matrix = None, translation = None, visible = True\<rparr>]"
  from assms l have a0: "activeCursors s = 0" and m: "0 < maxInputElements s"
    by (simp_all add: pool_inv_def cursor_pool_ok_def)
  have "pool_inv (s\<lparr>store := ?h\<rparr>)"
    using assms store_le_append by (rule pool_inv_store)
  moreover have "pool_ok (maxInputElements s) ?h [length (store s)] 0"
    using m by (simp add: pool_ok_def)
  ultimately have "pool_inv (s\<lparr>store := ?h, cursors := Some [length (store s)]\<rparr>)"
    using a0 by (simp add: pool_inv_def registry_fields cursor_pool_ok_def)
  then show ?thesis
    by (simp add: cursor_mesh_if_needed_create[OF l r] pool_inv_addNode)
qed

lemma pool_inv_addCursor:
  assumes "pool_inv s"
  shows "pool_inv (state_after s (addCursor cursorPos s))"
proof (cases "blurred s")
  case True
  with assms show ?thesis by (simp add: addCursor_def state_after_def)
next
  case nb: False
  let ?s1 = "cursor_mesh_if_needed s"
  let ?m = "maxInputElements ?s1"
  let ?a = "activeCursors ?s1"
  from assms have inv1: "pool_inv ?s1" by (rule pool_inv_cursor_mesh_if_needed)
  then have m: "0 < ?m"
    and lok: "cursor_pool_ok ?m (store ?s1) (cursors ?s1) ?a"
    by (simp_all add: pool_inv_def)
  show ?thesis
  proof (cases "cursors ?s1")
    case None
    with assms show ?thesis
      using addCursor_missing[OF nb None, of cursorPos] by (simp add: state_after_def)
  next
    case (Some cs)
    with lok have ok: "pool_ok ?m (store ?s1) cs ?a" by (simp add: cursor_pool_ok_def)
    then have ne: "cs \<noteq> []" by (simp add: pool_ok_def)
    show ?thesis
    proof (cases "?a < length cs")
      case True
      let ?n = "cs ! ?a"
      have "pool_ok ?m (store ?s1) cs ((?a + 1) mod ?m)"
        using ok True by (rule pool_ok_step(1))
      with inv1 have "pool_inv (?s1\<lparr>cursors := Some cs, activeCursors := (?a + 1) mod ?m\<rparr>)"
        by (rule pool_inv_cursors)
      moreover have "store_le (store ?s1)
          (set_visible ?n True (set_translation ?n cursorPos (store ?s1)))"
        by (rule store_le_trans[OF store_le_set_translation store_le_set_visible])
      ultimately have "pool_inv (?s1\<lparr>cursors := Some cs, activeCursors := (?a + 1) mod ?m,
            store := set_visible ?n True (set_translation ?n cursorPos (store ?s1))\<rparr>)"
        using pool_inv_store[of "?s1\<lparr>cursors := Some cs, activeCursors := (?a + 1) mod ?m\<rparr>"]
        by simp
      moreover have "?s1\<lparr>cursors := Some cs\<rparr> = ?s1" using Some by simp
      ultimately show ?thesis
        using addCursor_reuse[OF nb Some True, of cursorPos]
        by (simp add: state_after_def)
    next
      case False
      let ?L = "length (store ?s1)"
      let ?h1 = "store ?s1 @ [store ?s1 ! hd cs]"
      let ?s2 = "addNode ?L (?s1\<lparr>store := ?h1\<rparr>)"
      have "pool_inv (?s1\<lparr>store := ?h1\<rparr>)"
        using inv1 store_le_append by (rule pool_inv_store)
      then have inv2: "pool_inv ?s2" by (simp add: pool_inv_addNode)
      have "pool_ok ?m ?h1 (cs @ [?L]) ((?a + 1) mod ?m)"
        using ok False by (rule pool_ok_clone)
      then have "pool_ok (maxInputElements ?s2) (store ?s2) (cs @ [?L]) ((?a + 1) mod ?m)"
        by (simp add: addNode_fields)
      with inv2 have "pool_inv (?s2\<lparr>cursors := Some (cs @ [?L]), activeCursors := (?a + 1) mod ?m\<rparr>)"
        by (rule pool_inv_cursors)
      moreover have "store_le (store ?s2)
          (set_visible ?L True (set_translation ?L cursorPos ?h1))"
        using store_le_trans[OF store_le_set_translation store_le_set_visible]
        by (simp add: addNode_fields)
      ultimately have "pool_inv (?s2\<lparr>cursors := Some (cs @ [?L]), activeCursors := (?a + 1) mod ?m,
            store := set_visible ?L True (set_translation ?L cursorPos ?h1)\<rparr>)"
        using pool_inv_store[of "?s2\<lparr>cursors := Some (cs @ [?L]), activeCursors := (?a + 1) mod ?m\<rparr>"]
        by (simp add: addNode_fields)
      then show ?thesis
        using addCursor_clone[OF nb Some False ne, of cursorPos]
        by (simp add: state_after_def)
    qed
  qed
qed

text \<open>The operations that neither reuse nor clone.\<close>

lemma pool_inv_onRendererChanged:
  assumes "pool_inv s"
  shows "pool_inv (onRendererChanged r' (s\<lparr>renderer := r\<rparr>))"
  using assms
  by (simp add: pool_inv_def onRendererChanged_def registry_def registry_ok_def
      laser_pool_ok_def cursor_pool_ok_def)

lemma pool_inv_visibilitychange: "pool_inv s \<Longrightarrow> pool_inv (visibilitychange v s)"
  by (simp add: visibilitychange_def pool_inv_blurred)

lemma pool_inv_alloc: "pool_inv s \<Longrightarrow> pool_inv (s\<lparr>store := store s @ [v]\<rparr>)"
  by (erule pool_inv_store) (simp add: store_le_append)

lemma pool_inv_setControllerMesh:
  assumes "pool_inv s" and "n < length (store s)"
  shows "pool_inv (setControllerMesh n handedness profile s)"
proof -
  let ?c = "\<lparr>nodes = [n], activeCount = 0, controller_visible = None\<rparr>"
  let ?k = "controller_key profile handedness"
  from assms(1) have m: "0 < maxInputElements s" by (simp add: pool_inv_def)
  with assms(2) have "pool_ok (maxInputElements s) (store s) (nodes ?c) (activeCount ?c)"
    by (simp add: pool_ok_def)
  with assms(1) have "pool_inv (s\<lparr>controllers := Some (AList.update ?k ?c (registry s))\<rparr>)"
    by (rule pool_inv_controllers)
  then have "pool_inv (s\<lparr>controllers := Some (AList.update ?k ?c (registry s)),
                          store := set_visible n False (store s)\<rparr>)"
    using pool_inv_store[of "s\<lparr>controllers := Some (AList.update ?k ?c (registry s))\<rparr>"
        "set_visible n False (store s)"] store_le_set_visible[of "store s" n False]
    by simp
  then show ?thesis
    by (simp add: setControllerMesh_def Let_def pool_inv_addNode registry_def)
qed

lemma pool_inv_hideController:
  assumes "pool_inv s"
  shows "pool_inv (hideController handedness profile s)"
proof (cases "controller_pool profile handedness s")
  case None
  with assms show ?thesis
    by (cases "controllers s") (simp_all add: hideController_def controller_pool_def)
next
  case (Some c)
  then obtain cs where cs: "controllers s = Some cs"
    and c: "map_of cs (controller_key profile handedness) = Some c"
    by (cases "controllers s") (simp_all add: controller_pool_def)
  from assms cs c have "pool_ok (maxInputElements s) (store s) (nodes c) (activeCount c)"
    by (rule pool_inv_lookup)
  then have "pool_ok (maxInputElements s) (store s)
      (nodes (c\<lparr>controller_visible := Some True\<rparr>)) (activeCount (c\<lparr>controller_visible := Some True\<rparr>))"
    by simp
  with assms have "pool_inv (s\<lparr>controllers := Some (AList.update
      (controller_key profile handedness) (c\<lparr>controller_visible := Some True\<rparr>) (registry s))\<rparr>)"
    by (rule pool_inv_controllers)
  with cs c show ?thesis by (simp add: hideController_def registry_def)
qed

text \<open>\<open>reset\<close>: what the loop over the registry returns.\<close>

lemma reset_controllers_fst:
  "fst (reset_controllers cs h) = map (\<lambda>(k, c). (k, c\<lparr>activeCount := 0\<rparr>)) cs"
  by (induction cs h rule: reset_controllers.induct) (simp_all add: split_beta)

lemma reset_controllers_snd:
  "snd (reset_controllers cs h) = hide_nodes (concat (map (\<lambda>(k, c). nodes c) cs)) h"
  by (induction cs h rule: reset_controllers.induct) (simp_all add: split_beta hide_nodes_append)

lemma registry_ok_reset:
  "0 < m \<Longrightarrow> registry_ok m h cs \<Longrightarrow>
   registry_ok m h (map (\<lambda>(k, c). (k, c\<lparr>activeCount := 0\<rparr>)) cs)"
proof -
  assume m: "0 < m" and r: "registry_ok m h cs"
  have "pool_ok m h (nodes (snd kc)) 0" if "kc \<in> set cs" for kc
  proof -
    from r that have "pool_ok m h (nodes (snd kc)) (activeCount (snd kc))"
      unfolding registry_ok_def by (rule bspec)
    with m show ?thesis by (rule pool_ok_reset)
  qed
  then show ?thesis by (auto simp: registry_ok_def)
qed

lemma pool_inv_activeCursors:
  assumes "pool_inv s"
    and "cursor_pool_ok (maxInputElements s) (store s) (cursors s) a"
  shows "pool_inv (s\<lparr>activeCursors := a\<rparr>)"
  using assms by (simp add: pool_inv_def registry_fields)

lemma pool_inv_reset_controller_pools:
  assumes "pool_inv s"
  shows "pool_inv (reset_controller_pools opts s)"
proof (cases "controllers s")
  case None
  with assms show ?thesis by (simp add: reset_controller_pools_def)
next
  case (Some cs)
  let ?cs' = "map (\<lambda>(k, c). (k, c\<lparr>activeCount := 0\<rparr>)) cs"
  let ?h' = "hide_nodes (concat (map (\<lambda>(k, c). nodes c) cs)) (store s)"
  from Some have reg: "registry s = cs" by (simp add: registry_def)
  from assms reg have "pool_inv (s\<lparr>controllers := Some ?cs'\<rparr>)"
    by (simp add: pool_inv_def registry_fields registry_ok_reset)
  then have "pool_inv (s\<lparr>controllers := Some ?cs', store := ?h'\<rparr>)"
    using pool_inv_store[of "s\<lparr>controllers := Some ?cs'\<rparr>" ?h'] store_le_hide_nodes[of "store s"]
    by simp
  with assms Some show ?thesis
    by (simp add: reset_controller_pools_def split_beta reset_controllers_fst
        reset_controllers_snd)
qed

lemma pool_inv_reset_laser_pool:
  assumes "pool_inv s"
  shows "pool_inv (reset_laser_pool opts s)"
proof (cases "lasers s")
  case None
  with assms show ?thesis by (simp add: reset_laser_pool_def)
next
  case (Some ls)
  let ?h' = "hide_nodes ls (store s)"
  have le: "store_le (store s) ?h'" by (rule store_le_hide_nodes)
  with assms have i: "pool_inv (s\<lparr>store := ?h'\<rparr>)" by (rule pool_inv_store)
  from assms Some have "pool_ok (maxInputElements s) (store s) ls 0"
    by (auto simp: pool_inv_def laser_pool_ok_def intro: pool_ok_reset)
  with le have "pool_ok (maxInputElements s) ?h' ls 0" by (rule pool_ok_mono)
  with Some have "laser_pool_ok (maxInputElements (s\<lparr>store := ?h'\<rparr>)) (store (s\<lparr>store := ?h'\<rparr>))
      (renderer (s\<lparr>store := ?h'\<rparr>)) (lasers (s\<lparr>store := ?h'\<rparr>)) 0"
    by (simp add: laser_pool_ok_def)
  with i have "pool_inv (s\<lparr>store := ?h'\<rparr>\<lparr>activeLasers := 0\<rparr>)" by (rule pool_inv_activeLasers)
  with assms Some show ?thesis by (simp add: reset_laser_pool_def)
qed

lemma pool_inv_reset_cursor_pool:
  assumes "pool_inv s"
  shows "pool_inv (reset_cursor_pool opts s)"
proof (cases "cursors s")
  case None
  with assms show ?thesis by (simp add: reset_cursor_pool_def)
next
  case (Some cs)
  let ?h' = "hide_nodes cs (store s)"
  have le: "store_le (store s) ?h'" by (rule store_le_hide_nodes)
  with assms have i: "pool_inv (s\<lparr>store := ?h'\<rparr>)" by (rule pool_inv_store)
  from assms Some have "pool_ok (maxInputElements s) (store s) cs 0"
    by (auto simp: pool_inv_def cursor_pool_ok_def intro: pool_ok_reset)
  with le have "pool_ok (maxInputElements s) ?h' cs 0" by (rule pool_ok_mono)
  with Some have "cursor_pool_ok (maxInputElements (s\<lparr>store := ?h'\<rparr>)) (store (s\<lparr>store := ?h'\<rparr>))
      (cursors (s\<lparr>store := ?h'\<rparr>)) 0"
    by (simp add: cursor_pool_ok_def)
  with i have "pool_inv (s\<lparr>store := ?h'\<rparr>\<lparr>activeCursors := 0\<rparr>)" by (rule pool_inv_activeCursors)
  with assms Some show ?thesis by (simp add: reset_cursor_pool_def)
qed

lemma pool_inv_reset:
  assumes "pool_inv s"
  shows "pool_inv (reset options s)"
  using assms
  by (simp add: reset_def Let_def pool_inv_reset_controller_pools pool_inv_reset_laser_pool
      pool_inv_reset_cursor_pool)

section \<open>The pool invariant holds in every reachable state\<close>

lemma pool_inv_constructed: "0 < m \<Longrightarrow> pool_inv (InputRenderer_constructor\<lparr>maxInputElements := m\<rparr>)"
  by (simp add: pool_inv_def InputRenderer_constructor_def registry_def registry_ok_def
      laser_pool_ok_def cursor_pool_ok_def)

lemma reachable_pool_inv: "reachable s \<Longrightarrow> pool_inv s"
proof (induction rule: reachable.induct)
  case (constructed m)
  then show ?case by (rule pool_inv_constructed)
next
  case (allocated s v)
  then show ?case by (simp add: pool_inv_alloc)
next
  case (backend s r)
  then show ?case by (simp add: pool_inv_onRendererChanged)
next
  case (visibility s v)
  then show ?case by (simp add: pool_inv_visibilitychange)
next
  case (registered s n handedness profile)
  then show ?case by (simp add: pool_inv_setControllerMesh)
next
  case (controller_shown s gripMatrix handedness profile)
  then show ?case by (simp add: pool_inv_addController)
next
  case (controller_hidden s handedness profile)
  then show ?case by (simp add: pool_inv_hideController)
next
  case (laser_shown s rigidTransform)
  then show ?case by (simp add: pool_inv_addLaserPointer)
next
  case (cursor_shown s cursorPos)
  then show ?case by (simp add: pool_inv_addCursor)
next
  case (was_reset s options)
  then show ?case by (simp add: pool_inv_reset)
qed

text \<open>
  C6.  In every reachable state, every pool that exists (the pool of each registered key, the
  laser pool, the cursor pool) is well formed in the sense of \<open>pool_ok\<close>: its counter is
  below \<open>maxInputElements\<close> and at most the number of its instances, instance 0 exists, and
  all its instances are distinct nodes of the store with the mesh of instance 0 (instances
  are only ever added by cloning instance 0).  The counters of the shared pools are below
  \<open>maxInputElements\<close> also while the pool is missing.
\<close>

theorem pool_invariant:
  assumes "reachable s"
  shows "(\<forall>k c. map_of (registry s) k = Some c \<longrightarrow>
            pool_ok (maxInputElements s) (store s) (nodes c) (activeCount c))
       \<and> (\<forall>ls. lasers s = Some ls \<longrightarrow>
            pool_ok (maxInputElements s) (store s) ls (activeLasers s))
       \<and> (\<forall>cs. cursors s = Some cs \<longrightarrow>
            pool_ok (maxInputElements s) (store s) cs (activeCursors s))
       \<and> activeLasers s < maxInputElements s
       \<and> activeCursors s < maxInputElements s"
proof -
  from assms have inv: "pool_inv s" by (rule reachable_pool_inv)
  then have m: "0 < maxInputElements s"
    and r: "registry_ok (maxInputElements s) (store s) (registry s)"
    and l: "laser_pool_ok (maxInputElements s) (store s) (renderer s) (lasers s) (activeLasers s)"
    and c: "cursor_pool_ok (maxInputElements s) (store s) (cursors s) (activeCursors s)"
    by (simp_all add: pool_inv_def)
  have "pool_ok (maxInputElements s) (store s) (nodes c) (activeCount c)"
    if "map_of (registry s) k = Some c" for k c
    using r that by (rule registry_ok_lookup)
  moreover have "activeLasers s < maxInputElements s"
    using l by (cases "lasers s") (simp_all add: laser_pool_ok_def pool_ok_def)
  moreover have "activeCursors s < maxInputElements s"
    using c m by (cases "cursors s") (simp_all add: cursor_pool_ok_def pool_ok_def)
  moreover have "pool_ok (maxInputElements s) (store s) ls (activeLasers s)"
    if "lasers s = Some ls" for ls
    using l that by (simp add: laser_pool_ok_def)
  moreover have "pool_ok (maxInputElements s) (store s) cs (activeCursors s)"
    if "cursors s = Some cs" for cs
    using c that by (simp add: cursor_pool_ok_def)
  ultimately show ?thesis by blast
qed

lemma demo5_value:
  "demo5 = \<lparr>maxInputElements = 2,
      controllers = Some [(''profileA_left'',
         \<lparr>nodes = [0, 1], activeCount = 1, controller_visible = None\<rparr>)],
      lasers = None, cursors = None,
      activeControllers = 0, activeLasers = 0, activeCursors = 0,
      blurred = False, renderer = None, children = [0, 1],
      store = [\<lparr>mesh = AssetMesh 0, matrix = Some 9, translation = None, visible = True\<rparr>,
               \<lparr>mesh = AssetMesh 0, matrix = Some 8, translation = None, visible = True\<rparr>]\<rparr>"
  by (simp add: demo_defs renderer_defs node_defs asset_node_def Let_def)

theorem pool_invariant_witness:
  "reachable demo5
   \<and> map_of (registry demo5) ''profileA_left''
       = Some \<lparr>nodes = [0, 1], activeCount = 1, controller_visible = None\<rparr>
   \<and> pool_ok (maxInputElements demo5) (store demo5) [0, 1] 1"
proof -
  have r0: "reachable demo0" unfolding demo0_def by (rule reachable.constructed) simp
  have r1: "reachable demo1" unfolding demo1_def using r0 by (rule reachable.allocated)
  have "0 < length (store demo1)" by (simp add: demo_defs InputRenderer_constructor_def)
  with r1 have r2: "reachable demo2" unfolding demo2_def by (rule reachable.registered)
  have r3: "reachable demo3" unfolding demo3_def using r2 by (rule reachable.controller_shown)
  have r4: "reachable demo4" unfolding demo4_def using r3 by (rule reachable.controller_shown)
  have r5: "reachable demo5" unfolding demo5_def using r4 by (rule reachable.controller_shown)
  have l: "map_of (registry demo5) ''profileA_left''
       = Some \<lparr>nodes = [0, 1], activeCount = 1, controller_visible = None\<rparr>"
    by (simp add: demo5_value registry_def)
  from pool_invariant [OF r5] l r5 show ?thesis by fastforce
qed

section \<open>Reset\<close>

lemma hide_nodes_hidden:
  "i < length h \<Longrightarrow> i \<in> set ns \<Longrightarrow> \<not> visible (hide_nodes ns h ! i)"
  by (simp add: nth_hide_nodes)

lemma hide_nodes_other:
  "i \<notin> set ns \<Longrightarrow> hide_nodes ns h ! i = h ! i"
  by (induction ns arbitrary: h) (auto simp: set_visible_def)

lemma hide_nodes_idem: "hide_nodes ns (hide_nodes ms h) = hide_nodes ms h" if "set ns \<subseteq> set ms"
proof (rule nth_equalityI)
  show "length (hide_nodes ns (hide_nodes ms h)) = length (hide_nodes ms h)"
    by (simp add: length_hide_nodes)
next
  fix i assume "i < length (hide_nodes ns (hide_nodes ms h))"
  then have i: "i < length h" by (simp add: length_hide_nodes)
  then show "hide_nodes ns (hide_nodes ms h) ! i = hide_nodes ms h ! i"
    using that by (auto simp: nth_hide_nodes length_hide_nodes)
qed

lemma reset_controller_pools_fields:
  "controllers (reset_controller_pools opts s) =
     (if opt_controllers opts
      then map_option (map (\<lambda>(k, c). (k, c\<lparr>activeCount := 0\<rparr>))) (controllers s)
      else controllers s)"
  "store (reset_controller_pools opts s) =
     (if opt_controllers opts then hide_nodes (controller_instances s) (store s) else store s)"
  "lasers (reset_controller_pools opts s) = lasers s"
  "cursors (reset_controller_pools opts s) = cursors s"
  "activeControllers (reset_controller_pools opts s) = activeControllers s"
  "activeLasers (reset_controller_pools opts s) = activeLasers s"
  "activeCursors (reset_controller_pools opts s) = activeCursors s"
  "blurred (reset_controller_pools opts s) = blurred s"
  "renderer (reset_controller_pools opts s) = renderer s"
  "children (reset_controller_pools opts s) = children s"
  "maxInputElements (reset_controller_pools opts s) = maxInputElements s"
  by (cases "controllers s";
      simp add: reset_controller_pools_def controller_instances_def registry_def split_beta
        reset_controllers_fst reset_controllers_snd)+

lemma reset_laser_pool_fields:
  "controllers (reset_laser_pool opts s) = controllers s"
  "store (reset_laser_pool opts s) =
     (if opt_lasers opts then hide_nodes (laser_instances s) (store s) else store s)"
  "lasers (reset_laser_pool opts s) = lasers s"
  "cursors (reset_laser_pool opts s) = cursors s"
  "activeControllers (reset_laser_pool opts s) = activeControllers s"
  "activeLasers (reset_laser_pool opts s) =
     (if opt_lasers opts \<and> lasers s \<noteq> None then 0 else activeLasers s)"
  "activeCursors (reset_laser_pool opts s) = activeCursors s"
  "blurred (reset_laser_pool opts s) = blurred s"
  "renderer (reset_laser_pool opts s) = renderer s"
  "children (reset_laser_pool opts s) = children s"
  "maxInputElements (reset_laser_pool opts s) = maxInputElements s"
  by (cases "lasers s"; simp add: reset_laser_pool_def laser_instances_def)+

lemma reset_cursor_pool_fields:
  "controllers (reset_cursor_pool opts s) = controllers s"
  "store (reset_cursor_pool opts s) =
     (if opt_cursors opts then hide_nodes (cursor_instances s) (store s) else store s)"
  "lasers (reset_cursor_pool opts s) = lasers s"
  "cursors (reset_cursor_pool opts s) = cursors s"
  "activeControllers (reset_cursor_pool opts s) = activeControllers s"
  "activeLasers (reset_cursor_pool opts s) = activeLasers s"
  "activeCursors (reset_cursor_pool opts s) =
     (if opt_cursors opts \<and> cursors s \<noteq> None then 0 else activeCursors s)"
  "blurred (reset_cursor_pool opts s) = blurred s"
  "renderer (reset_cursor_pool opts s) = renderer s"
  "children (reset_cursor_pool opts s) = children s"
  "maxInputElements (reset_cursor_pool opts s) = maxInputElements s"
  by (cases "cursors s"; simp add: reset_cursor_pool_def cursor_instances_def)+

lemma reset_blocks:
  "reset options s =
     reset_cursor_pool (reset_options_of options)
       (reset_laser_pool (reset_options_of options)
         (reset_controller_pools (reset_options_of options) s))"
  by (simp add: reset_def reset_options_of_def Let_def)

lemma instances_fields:
  "laser_instances (reset_controller_pools opts s) = laser_instances s"
  "cursor_instances (reset_controller_pools opts s) = cursor_instances s"
  "cursor_instances (reset_laser_pool opts s) = cursor_instances s"
  by (simp_all add: laser_instances_def cursor_instances_def reset_controller_pools_fields
      reset_laser_pool_fields)

lemma reset_fields:
  "controllers (reset options s) =
     (if opt_controllers (reset_options_of options)
      then map_option (map (\<lambda>(k, c). (k, c\<lparr>activeCount := 0\<rparr>))) (controllers s)
      else controllers s)"
  "store (reset options s) = hide_nodes (reset_targets (reset_options_of options) s) (store s)"
  "lasers (reset options s) = lasers s"
  "cursors (reset options s) = cursors s"
  "activeControllers (reset options s) = activeControllers s"
  "activeLasers (reset options s) =
     (if opt_lasers (reset_options_of options) \<and> lasers s \<noteq> None then 0 else activeLasers s)"
  "activeCursors (reset options s) =
     (if opt_cursors (reset_options_of options) \<and> cursors s \<noteq> None then 0 else activeCursors s)"
  "blurred (reset options s) = blurred s"
  "renderer (reset options s) = renderer s"
  "children (reset options s) = children s"
  "maxInputElements (reset options s) = maxInputElements s"
  by (auto simp: reset_blocks reset_controller_pools_fields reset_laser_pool_fields
      reset_cursor_pool_fields instances_fields reset_targets_def hide_nodes_append)

lemma registry_reset:
  "registry (reset options s) =
     (if opt_controllers (reset_options_of options)
      then map (\<lambda>(k, c). (k, c\<lparr>activeCount := 0\<rparr>)) (registry s)
      else registry s)"
  by (cases "controllers s") (simp_all add: registry_def reset_fields)

lemma instances_reset:
  "controller_instances (reset options s) = controller_instances s"
  "laser_instances (reset options s) = laser_instances s"
  "cursor_instances (reset options s) = cursor_instances s"
  "reset_targets opts (reset options s) = reset_targets opts s"
proof -
  show c: "controller_instances (reset options s) = controller_instances s"
    by (simp add: controller_instances_def registry_reset comp_def case_prod_unfold)
  show l: "laser_instances (reset options s) = laser_instances s"
    and k: "cursor_instances (reset options s) = cursor_instances s"
    by (simp_all add: laser_instances_def cursor_instances_def reset_fields)
  from c l k show "reset_targets opts (reset options s) = reset_targets opts s"
    by (simp add: reset_targets_def)
qed

lemma reset_idempotent: "reset options (reset options s) = reset options s"
proof (rule inputRenderer.equality)
  have "map (\<lambda>(k, c). (k, c\<lparr>activeCount := 0\<rparr>)) (map (\<lambda>(k, c). (k, c\<lparr>activeCount := 0\<rparr>)) cs)
      = map (\<lambda>(k, c). (k, c\<lparr>activeCount := 0\<rparr>)) cs" for cs :: "(string \<times> controller) list"
    by (induction cs) auto
  then show "controllers (reset options (reset options s)) = controllers (reset options s)"
    by (cases "controllers s") (simp_all add: reset_fields)
  show "store (reset options (reset options s)) = store (reset options s)"
    by (simp add: reset_fields instances_reset hide_nodes_idem)
qed (auto simp: reset_fields)

section \<open>Reset followed by an acquisition\<close>

lemma controller_instances_valid:
  assumes "pool_inv s" and "n \<in> set (controller_instances s)"
  shows "n < length (store s)"
proof -
  from assms(2) obtain kc where kc: "kc \<in> set (registry s)" and n: "n \<in> set (nodes (snd kc))"
    by (auto simp: controller_instances_def)
  from assms(1) have "registry_ok (maxInputElements s) (store s) (registry s)"
    by (simp add: pool_inv_def)
  with kc have "pool_ok (maxInputElements s) (store s) (nodes (snd kc)) (activeCount (snd kc))"
    unfolding registry_ok_def by (rule_tac bspec)
  with n show ?thesis by (simp add: pool_ok_def)
qed

lemma laser_instances_valid:
  assumes "pool_inv s" and "n \<in> set (laser_instances s)"
  shows "n < length (store s)"
  using assms
  by (cases "lasers s") (simp_all add: pool_inv_def laser_pool_ok_def laser_instances_def pool_ok_def)

lemma cursor_instances_valid:
  assumes "pool_inv s" and "n \<in> set (cursor_instances s)"
  shows "n < length (store s)"
  using assms
  by (cases "cursors s") (simp_all add: pool_inv_def cursor_pool_ok_def cursor_instances_def pool_ok_def)

lemma reset_targets_valid:
  assumes "pool_inv s" and "n \<in> set (reset_targets opts s)"
  shows "n < length (store s)"
  using assms controller_instances_valid[of s n] laser_instances_valid[of s n]
    cursor_instances_valid[of s n]
  by (auto simp: reset_targets_def split: if_splits)

lemma reset_hides:
  assumes "pool_inv s" and "n \<in> set (reset_targets (reset_options_of options) s)"
  shows "\<not> visible (store (reset options s) ! n)"
  using reset_targets_valid[OF assms] assms(2) by (simp add: reset_fields hide_nodes_hidden)

lemma reset_counts:
  assumes "opt_controllers (reset_options_of options)" and "kc \<in> set (registry (reset options s))"
  shows "activeCount (snd kc) = 0"
  using assms by (auto simp: registry_reset)

lemma controller_pool_reset:
  assumes "opt_controllers (reset_options_of options)"
    and "controller_pool profile handedness s = Some c"
  shows "controller_pool profile handedness (reset options s) = Some (c\<lparr>activeCount := 0\<rparr>)"
proof -
  have "map_of (map (\<lambda>(k, c). (k, c\<lparr>activeCount := 0\<rparr>)) cs) k
      = map_option (\<lambda>c. c\<lparr>activeCount := 0\<rparr>) (map_of cs k)"
    for cs :: "(string \<times> controller) list" and k
    by (induction cs) auto
  with assms show ?thesis
    by (cases "controllers s") (simp_all add: controller_pool_def reset_fields)
qed

lemma controller_pool_in_instances:
  assumes "controller_pool profile handedness s = Some c"
  shows "set (nodes c) \<subseteq> set (controller_instances s)"
proof -
  from assms obtain cs where cs: "controllers s = Some cs"
    and c: "map_of cs (controller_key profile handedness) = Some c"
    by (cases "controllers s") (simp_all add: controller_pool_def)
  from c have "(controller_key profile handedness, c) \<in> set cs" by (rule map_of_SomeD)
  with cs show ?thesis by (force simp: controller_instances_def registry_def)
qed

lemma controller_pool_ok:
  assumes "pool_inv s" and "controller_pool profile handedness s = Some c"
  shows "pool_ok (maxInputElements s) (store s) (nodes c) (activeCount c)"
proof -
  from assms(2) obtain cs where cs: "controllers s = Some cs"
    and c: "map_of cs (controller_key profile handedness) = Some c"
    by (cases "controllers s") (simp_all add: controller_pool_def)
  from assms(1) cs c show ?thesis by (rule pool_inv_lookup)
qed

lemma shown_is_visible:
  "n < length h \<Longrightarrow> visible (set_visible n True h ! n)"
  by (simp add: set_visible_def)

lemma length_set_matrix: "length (set_matrix n m h) = length h"
  by (simp add: set_matrix_def)

lemma length_set_translation: "length (set_translation n t h) = length h"
  by (simp add: set_translation_def)

lemma reset_then_addController:
  assumes "pool_inv s" and "\<not> blurred s" and "opt_controllers (reset_options_of options)"
    and "controller_pool profile handedness s = Some c"
  shows "\<not> visible (store (reset options s) ! (nodes c ! 0))
       \<and> (\<exists>s2. addController gripMatrix handedness profile (reset options s) = Inr s2
              \<and> store s2 = set_visible (nodes c ! 0) True
                              (set_matrix (nodes c ! 0) gripMatrix (store (reset options s)))
              \<and> visible (store s2 ! (nodes c ! 0))
              \<and> map_option nodes (controller_pool profile handedness s2) = Some (nodes c))"
proof -
  let ?s1 = "reset options s"
  let ?k = "controller_key profile handedness"
  let ?c0 = "c\<lparr>activeCount := 0\<rparr>"
  let ?n = "nodes c ! 0"
  from assms(1,4) have "pool_ok (maxInputElements s) (store s) (nodes c) (activeCount c)"
    by (rule controller_pool_ok)
  then have ne: "nodes c \<noteq> []" by (simp add: pool_ok_def)
  then have n_in: "?n \<in> set (nodes c)" by simp
  with controller_pool_in_instances[OF assms(4)] assms(3)
  have tgt: "?n \<in> set (reset_targets (reset_options_of options) s)"
    by (auto simp: reset_targets_def)
  with assms(1) have hidden: "\<not> visible (store ?s1 ! ?n)" by (rule reset_hides)
  from assms(1) tgt have valid: "?n < length (store s)" by (rule reset_targets_valid)
  from assms(3,4) have "controller_pool profile handedness ?s1 = Some ?c0"
    by (rule controller_pool_reset)
  then obtain cs1 where cs1: "controllers ?s1 = Some cs1" and c1: "map_of cs1 ?k = Some ?c0"
    by (cases "controllers ?s1") (simp_all add: controller_pool_def)
  from assms(2) have nb: "\<not> blurred ?s1" by (simp add: reset_fields)
  from ne have lt: "activeCount ?c0 < length (nodes ?c0)" by simp
  let ?s2 = "?s1\<lparr>controllers := Some (AList.update ?k
                (?c0\<lparr>activeCount := (activeCount ?c0 + 1) mod maxInputElements ?s1\<rparr>) cs1),
            store := set_visible (nodes ?c0 ! activeCount ?c0) True
                       (set_matrix (nodes ?c0 ! activeCount ?c0) gripMatrix (store ?s1))\<rparr>"
  have run: "addController gripMatrix handedness profile ?s1 = Inr ?s2"
    using cs1 nb c1 lt by (rule addController_reuse)
  have st: "store ?s2 = set_visible ?n True (set_matrix ?n gripMatrix (store ?s1))" by simp
  have vis: "visible (store ?s2 ! ?n)"
    using valid by (simp add: shown_is_visible length_set_matrix reset_fields length_hide_nodes)
  have pool: "map_option nodes (controller_pool profile handedness ?s2) = Some (nodes c)"
    by (simp add: controller_pool_def update_conv')
  from hidden run st vis pool show ?thesis by blast
qed

lemma reset_then_addLaserPointer:
  assumes "pool_inv s" and "\<not> blurred s" and "opt_lasers (reset_options_of options)"
    and "lasers s = Some ls"
  shows "\<not> visible (store (reset options s) ! (ls ! 0))
       \<and> (\<exists>s2. addLaserPointer rigidTransform (reset options s) = Inr s2
              \<and> store s2 = set_visible (ls ! 0) True
                              (set_matrix (ls ! 0) (rt_matrix rigidTransform)
                                 (store (reset options s)))
              \<and> visible (store s2 ! (ls ! 0))
              \<and> lasers s2 = Some ls)"
proof -
  let ?s1 = "reset options s"
  let ?n = "ls ! 0"
  from assms(1,4) have "pool_ok (maxInputElements s) (store s) ls (activeLasers s)"
    by (simp add: pool_inv_def laser_pool_ok_def)
  then have ne: "ls \<noteq> []" by (simp add: pool_ok_def)
  then have "?n \<in> set ls" by simp
  with assms(3,4) have tgt: "?n \<in> set (reset_targets (reset_options_of options) s)"
    by (simp add: reset_targets_def laser_instances_def)
  with assms(1) have hidden: "\<not> visible (store ?s1 ! ?n)" by (rule reset_hides)
  from assms(1) tgt have valid: "?n < length (store s)" by (rule reset_targets_valid)
  from assms(4) have l1: "lasers ?s1 = Some ls" by (simp add: reset_fields)
  then have skip: "laser_mesh_if_needed ?s1 = ?s1" by (simp add: laser_mesh_if_needed_skip)
  from assms(3,4) have a0: "activeLasers ?s1 = 0" by (simp add: reset_fields)
  from assms(2) have nb: "\<not> blurred ?s1" by (simp add: reset_fields)
  let ?s2 = "?s1\<lparr>activeLasers := (activeLasers ?s1 + 1) mod maxInputElements ?s1,
            store := set_visible (ls ! activeLasers ?s1) True
                       (set_matrix (ls ! activeLasers ?s1) (rt_matrix rigidTransform) (store ?s1))\<rparr>"
  have run: "addLaserPointer rigidTransform ?s1 = Inr ?s2"
    using addLaserPointer_reuse[OF nb, of ls rigidTransform] l1 a0 ne by (simp add: skip)
  have st: "store ?s2 = set_visible ?n True (set_matrix ?n (rt_matrix rigidTransform) (store ?s1))"
    using a0 by simp
  have vis: "visible (store ?s2 ! ?n)"
    unfolding st using valid
    by (simp add: shown_is_visible length_set_matrix reset_fields length_hide_nodes)
  have pool: "lasers ?s2 = Some ls" using l1 by simp
  from hidden run st vis pool show ?thesis by blast
qed

lemma reset_then_addCursor:
  assumes "pool_inv s" and "\<not> blurred s" and "opt_cursors (reset_options_of options)"
    and "cursors s = Some cs"
  shows "\<not> visible (store (reset options s) ! (cs ! 0))
       \<and> (\<exists>s2. addCursor cursorPos (reset options s) = Inr s2
              \<and> store s2 = set_visible (cs ! 0) True
                              (set_translation (cs ! 0) cursorPos (store (reset options s)))
              \<and> visible (store s2 ! (cs ! 0))
              \<and> cursors s2 = Some cs)"
proof -
  let ?s1 = "reset options s"
  let ?n = "cs ! 0"
  from assms(1,4) have "pool_ok (maxInputElements s) (store s) cs (activeCursors s)"
    by (simp add: pool_inv_def cursor_pool_ok_def)
  then have ne: "cs \<noteq> []" by (simp add: pool_ok_def)
  then have "?n \<in> set cs" by simp
  with assms(3,4) have tgt: "?n \<in> set (reset_targets (reset_options_of options) s)"
    by (simp add: reset_targets_def cursor_instances_def)
  with assms(1) have hidden: "\<not> visible (store ?s1 ! ?n)" by (rule reset_hides)
  from assms(1) tgt have valid: "?n < length (store s)" by (rule reset_targets_valid)
  from assms(4) have l1: "cursors ?s1 = Some cs" by (simp add: reset_fields)
  then have skip: "cursor_mesh_if_needed ?s1 = ?s1" by (simp add: cursor_mesh_if_needed_skip)
  from assms(3,4) have a0: "activeCursors ?s1 = 0" by (simp add: reset_fields)
  from assms(2) have nb: "\<not> blurred ?s1" by (simp add: reset_fields)
  let ?s2 = "?s1\<lparr>activeCursors := (activeCursors ?s1 + 1) mod maxInputElements ?s1,
            store := set_visible (cs ! activeCursors ?s1) True
                       (set_translation (cs ! activeCursors ?s1) cursorPos (store ?s1))\<rparr>"
  have run: "addCursor cursorPos ?s1 = Inr ?s2"
    using addCursor_reuse[OF nb, of cs cursorPos] l1 a0 ne by (simp add: skip)
  have st: "store ?s2 = set_visible ?n True (set_translation ?n cursorPos (store ?s1))"
    using a0 by simp
  have vis: "visible (store ?s2 ! ?n)"
    unfolding st using valid
    by (simp add: shown_is_visible length_set_translation reset_fields length_hide_nodes)
  have pool: "cursors ?s2 = Some cs" using l1 by simp
  from hidden run st vis pool show ?thesis by blast
qed

text \<open>
  C7.  In a state that satisfies the pool invariant, \<open>reset\<close> leaves every instance of the
  selected pools invisible and the counters of the selected pools at 0, and applying it twice
  is applying it once.  When the renderer is not blurred, the first acquisition after a reset
  of its pool goes to instance 0 (index 0 of the pool, no clone is made): that node was made
  invisible by the reset, and the show call writes its transform and makes it visible.
\<close>

theorem reset_contract:
  assumes "pool_inv s"
  shows "(\<forall>n \<in> set (reset_targets (reset_options_of options) s).
            \<not> visible (store (reset options s) ! n))
       \<and> (opt_controllers (reset_options_of options) \<longrightarrow>
            (\<forall>kc \<in> set (registry (reset options s)). activeCount (snd kc) = 0))
       \<and> (opt_lasers (reset_options_of options) \<and> lasers s \<noteq> None \<longrightarrow>
            activeLasers (reset options s) = 0)
       \<and> (opt_cursors (reset_options_of options) \<and> cursors s \<noteq> None \<longrightarrow>
            activeCursors (reset options s) = 0)
       \<and> reset options (reset options s) = reset options s
       \<and> (\<not> blurred s \<and> opt_controllers (reset_options_of options)
            \<and> controller_pool profile handedness s = Some c \<longrightarrow>
            \<not> visible (store (reset options s) ! (nodes c ! 0))
            \<and> (\<exists>s2. addController gripMatrix handedness profile (reset options s) = Inr s2
                  \<and> store s2 = set_visible (nodes c ! 0) True
                                  (set_matrix (nodes c ! 0) gripMatrix (store (reset options s)))
                  \<and> visible (store s2 ! (nodes c ! 0))
                  \<and> map_option nodes (controller_pool profile handedness s2) = Some (nodes c)))
       \<and> (\<not> blurred s \<and> opt_lasers (reset_options_of options) \<and> lasers s = Some ls \<longrightarrow>
            \<not> visible (store (reset options s) ! (ls ! 0))
            \<and> (\<exists>s2. addLaserPointer rigidTransform (reset options s) = Inr s2
                  \<and> store s2 = set_visible (ls ! 0) True
                                  (set_matrix (ls ! 0) (rt_matrix rigidTransform)
                                     (store (reset options s)))
                  \<and> visible (store s2 ! (ls ! 0))
                  \<and> lasers s2 = Some ls))
       \<and> (\<not> blurred s \<and> opt_cursors (reset_options_of options) \<and> cursors s = Some cs \<longrightarrow>
            \<not> visible (store (reset options s) ! (cs ! 0))
            \<and> (\<exists>s2. addCursor cursorPos (reset options s) = Inr s2
                  \<and> store s2 = set_visible (cs ! 0) True
                                  (set_translation (cs ! 0) cursorPos (store (reset options s)))
                  \<and> visible (store s2 ! (cs ! 0))
                  \<and> cursors s2 = Some cs))"
proof (intro conjI impI ballI)
  fix n assume "n \<in> set (reset_targets (reset_options_of options) s)"
  with assms show "\<not> visible (store (reset options s) ! n)" by (rule reset_hides)
next
  fix kc
  assume "opt_controllers (reset_options_of options)" and "kc \<in> set (registry (reset options s))"
  then show "activeCount (snd kc) = 0" by (rule reset_counts)
next
  assume "opt_lasers (reset_options_of options) \<and> lasers s \<noteq> None"
  then show "activeLasers (reset options s) = 0" by (simp add: reset_fields)
next
  assume "opt_cursors (reset_options_of options) \<and> cursors s \<noteq> None"
  then show "activeCursors (reset options s) = 0" by (simp add: reset_fields)
next
  show "reset options (reset options s) = reset options s" by (rule reset_idempotent)
next
  assume a: "\<not> blurred s \<and> opt_controllers (reset_options_of options)
            \<and> controller_pool profile handedness s = Some c"
  from a reset_then_addController[OF assms, of options profile handedness c gripMatrix]
  show "\<not> visible (store (reset options s) ! (nodes c ! 0))" by blast
  from a reset_then_addController[OF assms, of options profile handedness c gripMatrix]
  show "\<exists>s2. addController gripMatrix handedness profile (reset options s) = Inr s2
                  \<and> store s2 = set_visible (nodes c ! 0) True
                                  (set_matrix (nodes c ! 0) gripMatrix (store (reset options s)))
                  \<and> visible (store s2 ! (nodes c ! 0))
                  \<and> map_option nodes (controller_pool profile handedness s2) = Some (nodes c)"
    by blast
next
  assume a: "\<not> blurred s \<and> opt_lasers (reset_options_of options) \<and> lasers s = Some ls"
  from a reset_then_addLaserPointer[OF assms, of options ls rigidTransform]
  show "\<not> visible (store (reset options s) ! (ls ! 0))" by blast
  from a reset_then_addLaserPointer[OF assms, of options ls rigidTransform]
  show "\<exists>s2. addLaserPointer rigidTransform (reset options s) = Inr s2
                  \<and> store s2 = set_visible (ls ! 0) True
                                  (set_matrix (ls ! 0) (rt_matrix rigidTransform)
                                     (store (reset options s)))
                  \<and> visible (store s2 ! (ls ! 0))
                  \<and> lasers s2 = Some ls"
    by blast
next
  assume a: "\<not> blurred s \<and> opt_cursors (reset_options_of options) \<and> cursors s = Some cs"
  from a reset_then_addCursor[OF assms, of options cs cursorPos]
  show "\<not> visible (store (reset options s) ! (cs ! 0))" by blast
  from a reset_then_addCursor[OF assms, of options cs cursorPos]
  show "\<exists>s2. addCursor cursorPos (reset options s) = Inr s2
                  \<and> store s2 = set_visible (cs ! 0) True
                                  (set_translation (cs ! 0) cursorPos (store (reset options s)))
                  \<and> visible (store s2 ! (cs ! 0))
                  \<and> cursors s2 = Some cs"
    by blast
qed

lemma demo5_pool_inv: "pool_inv demo5"
  by (simp add: demo5_value pool_inv_def registry_def registry_ok_def pool_ok_def
      laser_pool_ok_def cursor_pool_ok_def)

theorem reset_contract_witness:
  "pool_inv demo5
   \<and> \<not> blurred demo5
   \<and> opt_controllers (reset_options_of None)
   \<and> controller_pool ''profileA'' HandLeft demo5
       = Some \<lparr>nodes = [0, 1], activeCount = 1, controller_visible = None\<rparr>
   \<and> set (reset_targets (reset_options_of None) demo5) = {0, 1}
   \<and> \<not> visible (store (reset None demo5) ! 0)
   \<and> \<not> visible (store (reset None demo5) ! 1)
   \<and> reset None (reset None demo5) = reset None demo5
   \<and> (\<exists>s2. addController 5 HandLeft ''profileA'' (reset None demo5) = Inr s2
          \<and> store s2 = set_visible 0 True (set_matrix 0 5 (store (reset None demo5)))
          \<and> visible (store s2 ! 0)
          \<and> map_option nodes (controller_pool ''profileA'' HandLeft s2) = Some [0, 1])"
proof -
  have i: "pool_inv demo5" by (rule demo5_pool_inv)
  have b: "\<not> blurred demo5" by (simp add: demo5_value)
  have o: "opt_controllers (reset_options_of None)"
    by (simp add: reset_options_of_def DEFAULT_RESET_OPTIONS_def)
  have p: "controller_pool ''profileA'' HandLeft demo5
       = Some \<lparr>nodes = [0, 1], activeCount = 1, controller_visible = None\<rparr>"
    by (simp add: demo5_value controller_pool_def controller_key_def)
  have t: "set (reset_targets (reset_options_of None) demo5) = {0, 1}"
    by (auto simp: demo5_value reset_targets_def reset_options_of_def DEFAULT_RESET_OPTIONS_def
        controller_instances_def laser_instances_def cursor_instances_def registry_def)
  from reset_contract [OF i, of None "''profileA''" HandLeft
      "\<lparr>nodes = [0, 1], activeCount = 1, controller_visible = None\<rparr>" 5] i b o p t
  show ?thesis by simp
qed

section \<open>Selective reset\<close>

lemma nth_set_visible_other: "i \<noteq> n \<Longrightarrow> set_visible n b h ! i = h ! i"
  by (simp add: set_visible_def)

lemma nth_set_matrix_other: "i \<noteq> n \<Longrightarrow> set_matrix n m h ! i = h ! i"
  by (simp add: set_matrix_def)

lemma visible_set_matrix: "visible (set_matrix n m h ! i) = visible (h ! i)"
  by (cases "n < length h") (simp_all add: set_matrix_def nth_list_update list_update_beyond)

lemma one_visible:
  assumes "distinct ls" and "ls \<noteq> []"
    and "visible (h ! (ls ! 0))"
    and "\<And>n. n \<in> set ls \<Longrightarrow> n \<noteq> ls ! 0 \<Longrightarrow> \<not> visible (h ! n)"
  shows "filter (\<lambda>n. visible (h ! n)) ls = [ls ! 0]"
proof -
  from assms(2) obtain l0 rest where ls: "ls = l0 # rest" by (cases ls) auto
  with assms(1) have "l0 \<notin> set rest" by simp
  with assms(4) ls have "\<forall>n \<in> set rest. \<not> visible (h ! n)" by auto
  then have "filter (\<lambda>n. visible (h ! n)) rest = []" by (simp add: filter_empty_conv)
  with assms(3) ls show ?thesis by simp
qed

lemma reset_lasers_only_targets: "reset_targets lasers_only s = laser_instances s"
  by (simp add: reset_targets_def lasers_only_def)

lemma reset_lasers_only_fields:
  "controllers (reset (Some lasers_only) s) = controllers s"
  "cursors (reset (Some lasers_only) s) = cursors s"
  "activeCursors (reset (Some lasers_only) s) = activeCursors s"
  "store (reset (Some lasers_only) s) = hide_nodes (laser_instances s) (store s)"
  "activeLasers (reset (Some lasers_only) s) = (if lasers s \<noteq> None then 0 else activeLasers s)"
  by (simp_all add: reset_fields reset_options_of_def lasers_only_def reset_targets_def)

lemma lasers_only_existing_pool:
  assumes "pool_inv s" and "\<not> blurred s" and "lasers s = Some ls"
  shows "\<exists>s2. addLaserPointer rigidTransform (reset (Some lasers_only) s) = Inr s2
            \<and> filter (\<lambda>n. visible (store s2 ! n)) (laser_instances s2) = [ls ! 0]
            \<and> laser_instances s2 = ls
            \<and> controllers s2 = controllers s \<and> cursors s2 = cursors s
            \<and> (\<forall>n. n \<notin> set (laser_instances s) \<longrightarrow>
                  visible (store s2 ! n) = visible (store s ! n))"
proof -
  let ?s1 = "reset (Some lasers_only) s"
  let ?n = "ls ! 0"
  have o: "opt_lasers (reset_options_of (Some lasers_only))"
    by (simp add: reset_options_of_def lasers_only_def)
  from assms(1,3) have ok: "pool_ok (maxInputElements s) (store s) ls (activeLasers s)"
    by (simp add: pool_inv_def laser_pool_ok_def)
  then have ne: "ls \<noteq> []" and d: "distinct ls" and v: "\<forall>n \<in> set ls. n < length (store s)"
    by (simp_all add: pool_ok_def)
  from reset_then_addLaserPointer[OF assms(1,2) o assms(3), of rigidTransform]
  obtain s2 where run: "addLaserPointer rigidTransform ?s1 = Inr s2"
    and st: "store s2 = set_visible ?n True (set_matrix ?n (rt_matrix rigidTransform) (store ?s1))"
    and vis: "visible (store s2 ! ?n)" and l2: "lasers s2 = Some ls"
    by blast
  have li: "laser_instances s = ls" "laser_instances s2 = ls"
    using assms(3) l2 by (simp_all add: laser_instances_def)
  have other: "visible (store s2 ! n) = visible (store ?s1 ! n)" if "n \<noteq> ?n" for n
    using that by (simp add: st nth_set_visible_other visible_set_matrix)
  have hidden: "\<not> visible (store s2 ! n)" if "n \<in> set ls" "n \<noteq> ?n" for n
  proof -
    from that(1) v have "n < length (store s)" by blast
    with that(1) have "\<not> visible (store ?s1 ! n)"
      by (simp add: reset_lasers_only_fields li hide_nodes_hidden)
    with other[OF that(2)] show ?thesis by simp
  qed
  have one: "filter (\<lambda>n. visible (store s2 ! n)) (laser_instances s2) = [?n]"
    unfolding li using d ne vis hidden by (rule one_visible)
  have frame: "visible (store s2 ! n) = visible (store s ! n)" if "n \<notin> set (laser_instances s)" for n
  proof -
    from ne have "?n \<in> set ls" by simp
    with that li have "n \<noteq> ?n" by auto
    then have "visible (store s2 ! n) = visible (store ?s1 ! n)" by (rule other)
    also have "\<dots> = visible (store s ! n)"
      using that by (simp add: reset_lasers_only_fields hide_nodes_other)
    finally show ?thesis .
  qed
  have fields: "controllers s2 = controllers s" "cursors s2 = cursors s"
  proof -
    have l1: "lasers ?s1 = Some ls" using assms(3) by (simp add: reset_fields)
    then have skip: "laser_mesh_if_needed ?s1 = ?s1" by (simp add: laser_mesh_if_needed_skip)
    have nb: "\<not> blurred ?s1" using assms(2) by (simp add: reset_fields)
    have a0: "activeLasers ?s1 < length ls" using assms(3) ne by (simp add: reset_lasers_only_fields)
    from run addLaserPointer_reuse[OF nb, of ls rigidTransform] l1 a0
    have "s2 = ?s1\<lparr>activeLasers := (activeLasers ?s1 + 1) mod maxInputElements ?s1,
            store := set_visible (ls ! activeLasers ?s1) True
                       (set_matrix (ls ! activeLasers ?s1) (rt_matrix rigidTransform) (store ?s1))\<rparr>"
      by (simp add: skip)
    then show "controllers s2 = controllers s" "cursors s2 = cursors s"
      by (simp_all add: reset_lasers_only_fields)
  qed
  from run one li(2) fields frame show ?thesis by blast
qed

lemma reset_lasers_only_missing:
  assumes "lasers s = None"
  shows "reset (Some lasers_only) s = s"
proof -
  have "reset_controller_pools lasers_only s = s"
    by (cases "controllers s") (simp_all add: reset_controller_pools_def lasers_only_def)
  moreover have "reset_laser_pool lasers_only s = s"
    using assms by (simp add: reset_laser_pool_def)
  moreover have "reset_cursor_pool lasers_only s = s"
    by (cases "cursors s") (simp_all add: reset_cursor_pool_def lasers_only_def)
  ultimately show ?thesis by (simp add: reset_def)
qed

lemma lasers_only_new_pool:
  assumes "pool_inv s" and "\<not> blurred s" and "lasers s = None" and "renderer s = Some r"
  shows "\<exists>s2. addLaserPointer rigidTransform (reset (Some lasers_only) s) = Inr s2
            \<and> filter (\<lambda>n. visible (store s2 ! n)) (laser_instances s2) = [length (store s)]
            \<and> laser_instances s2 = [length (store s)]
            \<and> controllers s2 = controllers s \<and> cursors s2 = cursors s
            \<and> (\<forall>n < length (store s). visible (store s2 ! n) = visible (store s ! n))"
proof -
  let ?L = "length (store s)"
  let ?h = "store s @ [\<lparr>mesh = LaserMesh r, matrix = None, translation = None, visible = True\<rparr>]"
  let ?s1 = "laser_mesh_if_needed s"
  from assms(1,3,4) have a0: "activeLasers s = 0"
    by (simp add: pool_inv_def laser_pool_ok_def)
  have s1: "?s1 = addNode ?L (s\<lparr>store := ?h, lasers := Some [?L]\<rparr>)"
    using assms(3,4) by (rule laser_mesh_if_needed_create)
  have l1: "lasers ?s1 = Some [?L]" and st1: "store ?s1 = ?h" and a1: "activeLasers ?s1 < length [?L]"
    and c1: "controllers ?s1 = controllers s" "cursors ?s1 = cursors s"
    using a0 by (simp_all add: s1 addNode_fields)
  let ?s2 = "?s1\<lparr>activeLasers := (activeLasers ?s1 + 1) mod maxInputElements ?s1,
            store := set_visible ([?L] ! activeLasers ?s1) True
                       (set_matrix ([?L] ! activeLasers ?s1) (rt_matrix rigidTransform) (store ?s1))\<rparr>"
  have run: "addLaserPointer rigidTransform (reset (Some lasers_only) s) = Inr ?s2"
    using addLaserPointer_reuse[OF assms(2) l1 a1, of rigidTransform]
    by (simp add: reset_lasers_only_missing[OF assms(3)])
  have idx: "[?L] ! activeLasers ?s1 = ?L" using a0 by (simp add: s1 addNode_fields)
  have st2: "store ?s2 = set_visible ?L True (set_matrix ?L (rt_matrix rigidTransform) ?h)"
    using idx st1 by simp
  have li: "laser_instances ?s2 = [?L]" using l1 by (simp add: laser_instances_def)
  have vis: "visible (store ?s2 ! ?L)"
    unfolding st2 by (simp add: shown_is_visible length_set_matrix)
  have one: "filter (\<lambda>n. visible (store ?s2 ! n)) (laser_instances ?s2) = [?L]"
    unfolding li using vis by simp
  have frame: "visible (store ?s2 ! n) = visible (store s ! n)" if "n < ?L" for n
    unfolding st2 using that
    by (simp add: nth_set_visible_other visible_set_matrix nth_append)
  have "controllers ?s2 = controllers s" "cursors ?s2 = cursors s" using c1 by simp_all
  with run one li frame show ?thesis by blast
qed

lemma controller_instances_cong:
  "controllers s2 = controllers s \<Longrightarrow> controller_instances s2 = controller_instances s"
  by (simp add: controller_instances_def registry_def)

lemma cursor_instances_cong:
  "cursors s2 = cursors s \<Longrightarrow> cursor_instances s2 = cursor_instances s"
  by (simp add: cursor_instances_def)

text \<open>
  C8.  On a renderer that is not blurred and has a laser pool or a backend to build one, a
  reset of the lasers only followed by one \<open>addLaserPointer\<close> succeeds and leaves exactly one
  instance of the laser pool visible.  The controller registry and the cursor pool are as
  before the reset, and every controller or cursor instance (that is not also held by the
  laser pool) has the visibility it had before the reset.
\<close>

theorem selective_reset_lasers:
  assumes "pool_inv s" and "\<not> blurred s" and "lasers s \<noteq> None \<or> renderer s \<noteq> None"
  shows "\<exists>s2 l. addLaserPointer rigidTransform (reset (Some lasers_only) s) = Inr s2
           \<and> filter (\<lambda>n. visible (store s2 ! n)) (laser_instances s2) = [l]
           \<and> distinct (laser_instances s2)
           \<and> controller_instances s2 = controller_instances s
           \<and> cursor_instances s2 = cursor_instances s
           \<and> (\<forall>n \<in> set (controller_instances s). n \<notin> set (laser_instances s) \<longrightarrow>
                 visible (store s2 ! n) = visible (store s ! n))
           \<and> (\<forall>n \<in> set (cursor_instances s). n \<notin> set (laser_instances s) \<longrightarrow>
                 visible (store s2 ! n) = visible (store s ! n))"
proof (cases "lasers s")
  case (Some ls)
  from assms(1) Some have "distinct ls" by (simp add: pool_inv_def laser_pool_ok_def pool_ok_def)
  moreover from lasers_only_existing_pool[OF assms(1,2) Some, of rigidTransform]
  obtain s2 where "addLaserPointer rigidTransform (reset (Some lasers_only) s) = Inr s2"
    and "filter (\<lambda>n. visible (store s2 ! n)) (laser_instances s2) = [ls ! 0]"
    and "laser_instances s2 = ls"
    and "controllers s2 = controllers s" and "cursors s2 = cursors s"
    and "\<forall>n. n \<notin> set (laser_instances s) \<longrightarrow> visible (store s2 ! n) = visible (store s ! n)"
    by blast
  ultimately show ?thesis
    using controller_instances_cong[of s2 s] cursor_instances_cong[of s2 s] by auto
next
  case None
  with assms(3) obtain r where r: "renderer s = Some r" by auto
  from lasers_only_new_pool[OF assms(1,2) None r, of rigidTransform]
  obtain s2 where run: "addLaserPointer rigidTransform (reset (Some lasers_only) s) = Inr s2"
    and one: "filter (\<lambda>n. visible (store s2 ! n)) (laser_instances s2) = [length (store s)]"
    and li: "laser_instances s2 = [length (store s)]"
    and c: "controllers s2 = controllers s" and k: "cursors s2 = cursors s"
    and frame: "\<forall>n < length (store s). visible (store s2 ! n) = visible (store s ! n)"
    by blast
  have "visible (store s2 ! n) = visible (store s ! n)" if "n \<in> set (controller_instances s)" for n
    using frame controller_instances_valid[OF assms(1) that] by blast
  moreover have "visible (store s2 ! n) = visible (store s ! n)" if "n \<in> set (cursor_instances s)" for n
    using frame cursor_instances_valid[OF assms(1) that] by blast
  ultimately show ?thesis
    using run one li controller_instances_cong[OF c] cursor_instances_cong[OF k] by auto
qed

lemma laser_scene4_value:
  "laser_scene4 = \<lparr>maxInputElements = 32,
      controllers = Some [(''profileA_left'',
         \<lparr>nodes = [0], activeCount = 1, controller_visible = None\<rparr>)],
      lasers = Some [1, 2], cursors = None,
      activeControllers = 0, activeLasers = 2, activeCursors = 0,
      blurred = False, renderer = Some 1, children = [0, 1, 2],
      store = [\<lparr>mesh = AssetMesh 0, matrix = Some 7, translation = None, visible = True\<rparr>,
               \<lparr>mesh = LaserMesh 1, matrix = Some 3, translation = None, visible = True\<rparr>,
               \<lparr>mesh = LaserMesh 1, matrix = Some 4, translation = None, visible = True\<rparr>]\<rparr>"
  by (simp add: laser_scene_defs renderer_defs node_defs asset_node_def Let_def)

theorem selective_reset_lasers_witness:
  "pool_inv laser_scene4 \<and> \<not> blurred laser_scene4 \<and> lasers laser_scene4 = Some [1, 2]
   \<and> filter (\<lambda>n. visible (store laser_scene4 ! n)) (laser_instances laser_scene4) = [1, 2]
   \<and> controller_instances laser_scene4 = [0]
   \<and> (\<exists>s2 l. addLaserPointer (RigidTransform 5) (reset (Some lasers_only) laser_scene4) = Inr s2
          \<and> filter (\<lambda>n. visible (store s2 ! n)) (laser_instances s2) = [l]
          \<and> visible (store s2 ! 0) = visible (store laser_scene4 ! 0))"
proof -
  have i: "pool_inv laser_scene4"
    by (simp add: laser_scene4_value pool_inv_def registry_def registry_ok_def pool_ok_def
        laser_pool_ok_def cursor_pool_ok_def)
  have b: "\<not> blurred laser_scene4" by (simp add: laser_scene4_value)
  have l: "lasers laser_scene4 = Some [1, 2]" by (simp add: laser_scene4_value)
  then have l': "lasers laser_scene4 \<noteq> None \<or> renderer laser_scene4 \<noteq> None" by simp
  have f: "filter (\<lambda>n. visible (store laser_scene4 ! n)) (laser_instances laser_scene4) = [1, 2]"
    by (simp add: laser_scene4_value laser_instances_def)
  have c: "controller_instances laser_scene4 = [0]"
    by (simp add: laser_scene4_value controller_instances_def registry_def)
  have li: "laser_instances laser_scene4 = [1, 2]"
    by (simp add: laser_scene4_value laser_instances_def)
  from selective_reset_lasers [OF i b l', of "RigidTransform 5"]
  obtain s2 k where "addLaserPointer (RigidTransform 5) (reset (Some lasers_only) laser_scene4) = Inr s2"
    and "filter (\<lambda>n. visible (store s2 ! n)) (laser_instances s2) = [k]"
    and "\<forall>n \<in> set (controller_instances laser_scene4). n \<notin> set (laser_instances laser_scene4) \<longrightarrow>
                 visible (store s2 ! n) = visible (store laser_scene4 ! n)"
    by blast
  then have "\<exists>s2 l. addLaserPointer (RigidTransform 5) (reset (Some lasers_only) laser_scene4) = Inr s2
          \<and> filter (\<lambda>n. visible (store s2 ! n)) (laser_instances s2) = [l]
          \<and> visible (store s2 ! 0) = visible (store laser_scene4 ! 0)"
    unfolding c li by auto
  with i b l f c show ?thesis by blast
qed

section \<open>Round-robin acquisition\<close>

lemma addControllers_snoc:
  "addControllers (gs @ [g]) handedness profile s =
     (case addControllers gs handedness profile s of
        Inl e \<Rightarrow> Inl e
      | Inr s' \<Rightarrow> addController g handedness profile s')"
  by (induction gs arbitrary: s) (simp_all split: sum.splits)

lemma shown_node:
  assumes "n < length h"
  shows "matrix (set_visible n True (set_matrix n g h) ! n) = Some g"
    and "visible (set_visible n True (set_matrix n g h) ! n)"
  using assms by (simp_all add: set_visible_def set_matrix_def)

lemma shown_other:
  assumes "i \<noteq> n"
  shows "set_visible n True (set_matrix n g h) ! i = h ! i"
  using assms by (simp add: set_visible_def set_matrix_def)

lemma acquired_first:
  assumes "controllers s = Some cs" and "map_of cs (controller_key profile handedness) = Some c"
    and "nodes c = [t]" and "activeCount c = 0" and "t < length (store s)"
    and "\<not> blurred s" and "0 < maxInputElements s"
  shows "\<exists>s'. addController g handedness profile s = Inr s'
            \<and> acquired (controller_key profile handedness) t [g] s'
            \<and> maxInputElements s' = maxInputElements s"
proof -
  let ?k = "controller_key profile handedness"
  let ?c2 = "c\<lparr>activeCount := (activeCount c + 1) mod maxInputElements s\<rparr>"
  let ?s' = "s\<lparr>controllers := Some (AList.update ?k ?c2 cs),
            store := set_visible (nodes c ! activeCount c) True
                       (set_matrix (nodes c ! activeCount c) g (store s))\<rparr>"
  from assms(3,4) have lt: "activeCount c < length (nodes c)" by simp
  have run: "addController g handedness profile s = Inr ?s'"
    using assms(1) assms(6) assms(2) lt by (rule addController_reuse)
  have st: "store ?s' = set_visible t True (set_matrix t g (store s))"
    using assms(3,4) by simp
  have "acquired ?k t [g] ?s'"
    unfolding acquired_def
  proof (intro conjI exI)
    show "\<not> blurred ?s'" using assms(6) by simp
    show "controllers ?s' = Some (AList.update ?k ?c2 cs)" by simp
    show "map_of (AList.update ?k ?c2 cs) ?k = Some ?c2" by (simp add: update_conv')
    show "length (nodes ?c2) = length [g]" using assms(3) by simp
    show "distinct (nodes ?c2)" using assms(3) by simp
    show "nodes ?c2 ! 0 = t" using assms(3) by simp
    show "\<forall>n \<in> set (nodes ?c2). n < length (store ?s')"
      using assms(3,5) by (simp add: st set_visible_def set_matrix_def)
    show "activeCount ?c2 = length [g] mod maxInputElements ?s'" using assms(4) by simp
    show "\<forall>i < length [g]. matrix (store ?s' ! (nodes ?c2 ! i)) = Some ([g] ! i)
                               \<and> visible (store ?s' ! (nodes ?c2 ! i))"
      using assms(3,4,5) shown_node[of t "store s" g] by simp
  qed
  with run show ?thesis by (intro exI[of _ ?s']) simp
qed

lemma acquired_next:
  assumes "acquired (controller_key profile handedness) t gs s" and "gs \<noteq> []"
    and "length gs < maxInputElements s"
  shows "\<exists>s'. addController g handedness profile s = Inr s'
            \<and> acquired (controller_key profile handedness) t (gs @ [g]) s'
            \<and> maxInputElements s' = maxInputElements s"
proof -
  let ?k = "controller_key profile handedness"
  let ?a = "length (store s)"
  from assms(1) obtain cs c where nb: "\<not> blurred s" and cs: "controllers s = Some cs"
    and c: "map_of cs ?k = Some c" and len: "length (nodes c) = length gs"
    and d: "distinct (nodes c)" and t: "nodes c ! 0 = t"
    and v: "\<forall>n \<in> set (nodes c). n < ?a"
    and ac: "activeCount c = length gs mod maxInputElements s"
    and m: "\<forall>i < length gs. matrix (store s ! (nodes c ! i)) = Some (gs ! i)
                               \<and> visible (store s ! (nodes c ! i))"
    unfolding acquired_def by blast
  from ac assms(3) have ac': "activeCount c = length gs" by simp
  with len have nlt: "\<not> activeCount c < length (nodes c)" by simp
  from len assms(2) have ne: "nodes c \<noteq> []" by auto
  let ?h1 = "store s @ [store s ! hd (nodes c)]"
  let ?c2 = "c\<lparr>nodes := nodes c @ [?a],
               activeCount := (activeCount c + 1) mod maxInputElements s\<rparr>"
  let ?s' = "(addNode ?a (s\<lparr>store := ?h1\<rparr>))
           \<lparr>controllers := Some (AList.update ?k ?c2 cs),
            store := set_visible ?a True (set_matrix ?a g ?h1)\<rparr>"
  have run: "addController g handedness profile s = Inr ?s'"
    using cs nb c nlt ne by (rule addController_clone)
  have st: "store ?s' = set_visible ?a True (set_matrix ?a g ?h1)" by simp
  have lst: "length (store ?s') = ?a + 1"
    by (simp add: st set_visible_def set_matrix_def)
  have fresh: "?a \<notin> set (nodes c)" using v by auto
  have old: "store ?s' ! n = store s ! n" if "n \<in> set (nodes c)" for n
  proof -
    from that v have "n < ?a" by blast
    then show ?thesis by (simp add: st shown_other nth_append)
  qed
  have "acquired ?k t (gs @ [g]) ?s'"
    unfolding acquired_def
  proof (intro conjI exI)
    show "\<not> blurred ?s'" using nb by (simp add: addNode_fields)
    show "controllers ?s' = Some (AList.update ?k ?c2 cs)" by simp
    show "map_of (AList.update ?k ?c2 cs) ?k = Some ?c2" by (simp add: update_conv')
    show "length (nodes ?c2) = length (gs @ [g])" using len by simp
    show "distinct (nodes ?c2)" using d fresh by simp
    show "nodes ?c2 ! 0 = t" using t ne by (simp add: nth_append)
    show "\<forall>n \<in> set (nodes ?c2). n < length (store ?s')"
      unfolding lst using v by auto
    show "activeCount ?c2 = length (gs @ [g]) mod maxInputElements ?s'"
      using ac' by (simp add: addNode_fields)
    show "\<forall>i < length (gs @ [g]). matrix (store ?s' ! (nodes ?c2 ! i)) = Some ((gs @ [g]) ! i)
                               \<and> visible (store ?s' ! (nodes ?c2 ! i))"
    proof (intro allI impI)
      fix i assume i: "i < length (gs @ [g])"
      show "matrix (store ?s' ! (nodes ?c2 ! i)) = Some ((gs @ [g]) ! i)
            \<and> visible (store ?s' ! (nodes ?c2 ! i))"
      proof (cases "i < length gs")
        case True
        then have "nodes c ! i \<in> set (nodes c)" using len by simp
        then have "store ?s' ! (nodes c ! i) = store s ! (nodes c ! i)" by (rule old)
        with True m len show ?thesis by (simp add: nth_append)
      next
        case False
        with i have "i = length gs" by simp
        then have "nodes ?c2 ! i = ?a" "(gs @ [g]) ! i = g" using len by (simp_all add: nth_append)
        then show ?thesis
          unfolding st using shown_node[of ?a ?h1 g] by simp
      qed
    qed
  qed
  moreover have "maxInputElements ?s' = maxInputElements s" by (simp add: addNode_fields)
  ultimately show ?thesis using run by (intro exI[of _ ?s']) simp
qed


lemma acquired_sequence:
  assumes "controllers s = Some cs" and "map_of cs (controller_key profile handedness) = Some c"
    and "nodes c = [t]" and "activeCount c = 0" and "t < length (store s)"
    and "\<not> blurred s"
  shows "gs \<noteq> [] \<Longrightarrow> length gs \<le> maxInputElements s \<Longrightarrow>
         \<exists>s'. addControllers gs handedness profile s = Inr s'
            \<and> acquired (controller_key profile handedness) t gs s'
            \<and> maxInputElements s' = maxInputElements s"
proof (induction gs rule: rev_induct)
  case Nil
  then show ?case by simp
next
  case (snoc g gs)
  show ?case
  proof (cases "gs = []")
    case True
    from snoc.prems have "0 < maxInputElements s" by simp
    with assms obtain s1 where "addController g handedness profile s = Inr s1"
      and "acquired (controller_key profile handedness) t [g] s1"
      and "maxInputElements s1 = maxInputElements s"
      using acquired_first[of s cs profile handedness c t g] by blast
    with True show ?thesis by simp
  next
    case False
    from snoc.prems have le: "length gs < maxInputElements s" by simp
    with snoc.IH False obtain s1 where run1: "addControllers gs handedness profile s = Inr s1"
      and acq1: "acquired (controller_key profile handedness) t gs s1"
      and m1: "maxInputElements s1 = maxInputElements s"
      by auto
    from le m1 have "length gs < maxInputElements s1" by simp
    with acq1 False obtain s2 where "addController g handedness profile s1 = Inr s2"
      and "acquired (controller_key profile handedness) t (gs @ [g]) s2"
      and "maxInputElements s2 = maxInputElements s1"
      using acquired_next[of profile handedness t gs s1 g] by blast
    with run1 m1 show ?thesis by (simp add: addControllers_snoc)
  qed
qed

lemma acquired_wrap:
  assumes "acquired (controller_key profile handedness) t gs s"
    and "length gs = maxInputElements s" and "gs \<noteq> []"
  shows "\<exists>s' c'. addController g handedness profile s = Inr s'
            \<and> controller_pool profile handedness s' = Some c'
            \<and> length (nodes c') = length gs \<and> distinct (nodes c') \<and> nodes c' ! 0 = t
            \<and> matrix (store s' ! (nodes c' ! 0)) = Some g
            \<and> (\<forall>i. 0 < i \<and> i < length gs \<longrightarrow>
                  matrix (store s' ! (nodes c' ! i)) = Some (gs ! i))"
proof -
  let ?k = "controller_key profile handedness"
  from assms(1) obtain cs c where nb: "\<not> blurred s" and cs: "controllers s = Some cs"
    and c: "map_of cs ?k = Some c" and len: "length (nodes c) = length gs"
    and d: "distinct (nodes c)" and t: "nodes c ! 0 = t"
    and v: "\<forall>n \<in> set (nodes c). n < length (store s)"
    and ac: "activeCount c = length gs mod maxInputElements s"
    and m: "\<forall>i < length gs. matrix (store s ! (nodes c ! i)) = Some (gs ! i)
                               \<and> visible (store s ! (nodes c ! i))"
    unfolding acquired_def by blast
  from ac assms(2) have ac0: "activeCount c = 0" by simp
  from len assms(3) have pos: "0 < length (nodes c)" by auto
  with ac0 have lt: "activeCount c < length (nodes c)" by simp
  let ?c2 = "c\<lparr>activeCount := (activeCount c + 1) mod maxInputElements s\<rparr>"
  let ?s' = "s\<lparr>controllers := Some (AList.update ?k ?c2 cs),
            store := set_visible (nodes c ! activeCount c) True
                       (set_matrix (nodes c ! activeCount c) g (store s))\<rparr>"
  have run: "addController g handedness profile s = Inr ?s'"
    using cs nb c lt by (rule addController_reuse)
  have st: "store ?s' = set_visible t True (set_matrix t g (store s))"
    using ac0 t by simp
  from pos have "nodes c ! 0 \<in> set (nodes c)" by simp
  with v t have tv: "t < length (store s)" by auto
  have pool: "controller_pool profile handedness ?s' = Some ?c2"
    by (simp add: controller_pool_def update_conv')
  have first: "matrix (store ?s' ! (nodes ?c2 ! 0)) = Some g"
    unfolding st using t shown_node(1)[OF tv, of g] by simp
  have rest: "matrix (store ?s' ! (nodes ?c2 ! i)) = Some (gs ! i)" if "0 < i" "i < length gs" for i
  proof -
    from that len d pos have "nodes c ! i \<noteq> nodes c ! 0"
      by (simp add: nth_eq_iff_index_eq)
    with t have "nodes c ! i \<noteq> t" by simp
    then have "store ?s' ! (nodes c ! i) = store s ! (nodes c ! i)"
      unfolding st by (rule shown_other)
    with m that(2) show ?thesis by simp
  qed
  from run pool len d t first rest show ?thesis
    by (intro exI[of _ ?s'] exI[of _ ?c2]) simp
qed

lemma acquired_pool:
  assumes "acquired (controller_key profile handedness) t gs s"
  shows "\<exists>c. controller_pool profile handedness s = Some c
           \<and> length (nodes c) = length gs \<and> distinct (nodes c) \<and> nodes c ! 0 = t
           \<and> (\<forall>i < length gs. matrix (store s ! (nodes c ! i)) = Some (gs ! i)
                                \<and> visible (store s ! (nodes c ! i)))"
  using assms unfolding acquired_def controller_pool_def by auto

text \<open>
  C3.  Take a pool seeded with one template \<open>t\<close> and not yet used (as \<open>setControllerMesh\<close>
  leaves it), on a renderer that is not blurred, and call \<open>addController\<close> for its key once
  per element of \<open>gs\<close>.  As long as there are at most \<open>maxInputElements\<close> calls, every call
  succeeds and the pool ends with one instance per call, all distinct, instance 0 being the
  template and instance \<open>i\<close> carrying the matrix of call \<open>i\<close> and being visible: call \<open>i\<close>
  acquired instance \<open>i\<close>.  One more call after \<open>maxInputElements\<close> calls adds no instance and
  writes its matrix to instance 0, the instance of the first call, while the other
  instances keep theirs.
\<close>

theorem round_robin_acquisition:
  assumes "controller_pool profile handedness s = Some c"
    and "nodes c = [t]" and "activeCount c = 0" and "t < length (store s)"
    and "\<not> blurred s"
  shows "(gs \<noteq> [] \<and> length gs \<le> maxInputElements s \<longrightarrow>
           (\<exists>s' c'. addControllers gs handedness profile s = Inr s'
              \<and> controller_pool profile handedness s' = Some c'
              \<and> length (nodes c') = length gs \<and> distinct (nodes c') \<and> nodes c' ! 0 = t
              \<and> (\<forall>i < length gs. matrix (store s' ! (nodes c' ! i)) = Some (gs ! i)
                                   \<and> visible (store s' ! (nodes c' ! i)))))
       \<and> (gs \<noteq> [] \<and> length gs = maxInputElements s \<longrightarrow>
           (\<exists>s' c'. addControllers (gs @ [g]) handedness profile s = Inr s'
              \<and> controller_pool profile handedness s' = Some c'
              \<and> length (nodes c') = length gs \<and> distinct (nodes c') \<and> nodes c' ! 0 = t
              \<and> matrix (store s' ! (nodes c' ! 0)) = Some g
              \<and> (\<forall>i. 0 < i \<and> i < length gs \<longrightarrow>
                    matrix (store s' ! (nodes c' ! i)) = Some (gs ! i))))"
proof -
  let ?k = "controller_key profile handedness"
  from assms(1) obtain cs where cs: "controllers s = Some cs" and c: "map_of cs ?k = Some c"
    by (cases "controllers s") (simp_all add: controller_pool_def)
  have seq: "\<exists>s'. addControllers gs handedness profile s = Inr s' \<and> acquired ?k t gs s'
                \<and> maxInputElements s' = maxInputElements s"
    if "gs \<noteq> []" "length gs \<le> maxInputElements s"
    using acquired_sequence[OF cs c assms(2,3,4,5) that] .
  have part1: "\<exists>s' c'. addControllers gs handedness profile s = Inr s'
              \<and> controller_pool profile handedness s' = Some c'
              \<and> length (nodes c') = length gs \<and> distinct (nodes c') \<and> nodes c' ! 0 = t
              \<and> (\<forall>i < length gs. matrix (store s' ! (nodes c' ! i)) = Some (gs ! i)
                                   \<and> visible (store s' ! (nodes c' ! i)))"
    if "gs \<noteq> []" "length gs \<le> maxInputElements s"
  proof -
    from seq[OF that] obtain s' where "addControllers gs handedness profile s = Inr s'"
      and "acquired ?k t gs s'" by blast
    with acquired_pool[of profile handedness t gs s'] show ?thesis by blast
  qed
  have part2: "\<exists>s' c'. addControllers (gs @ [g]) handedness profile s = Inr s'
              \<and> controller_pool profile handedness s' = Some c'
              \<and> length (nodes c') = length gs \<and> distinct (nodes c') \<and> nodes c' ! 0 = t
              \<and> matrix (store s' ! (nodes c' ! 0)) = Some g
              \<and> (\<forall>i. 0 < i \<and> i < length gs \<longrightarrow>
                    matrix (store s' ! (nodes c' ! i)) = Some (gs ! i))"
    if "gs \<noteq> []" "length gs = maxInputElements s"
  proof -
    from that have "length gs \<le> maxInputElements s" by simp
    from seq[OF that(1) this] obtain s1 where run1: "addControllers gs handedness profile s = Inr s1"
      and acq: "acquired ?k t gs s1" and m1: "maxInputElements s1 = maxInputElements s"
      by blast
    from that(2) m1 have "length gs = maxInputElements s1" by simp
    from acquired_wrap[OF acq this that(1), of g] run1 show ?thesis
      by (simp add: addControllers_snoc)
  qed
  from part1 part2 show ?thesis by blast
qed

theorem round_robin_acquisition_witness:
  "controller_pool ''profileA'' HandLeft demo2
     = Some \<lparr>nodes = [0], activeCount = 0, controller_visible = None\<rparr>
   \<and> \<not> blurred demo2 \<and> maxInputElements demo2 = 2 \<and> length (store demo2) = 1
   \<and> (\<exists>s' c'. addControllers [7, 8, 9] HandLeft ''profileA'' demo2 = Inr s'
          \<and> controller_pool ''profileA'' HandLeft s' = Some c'
          \<and> length (nodes c') = 2 \<and> distinct (nodes c') \<and> nodes c' ! 0 = 0
          \<and> matrix (store s' ! (nodes c' ! 0)) = Some 9
          \<and> matrix (store s' ! (nodes c' ! 1)) = Some 8)
   \<and> map_option nodes (controller_pool ''profileA'' HandLeft demo3) = Some [0]
   \<and> matrix (store demo3 ! 0) = Some 7
   \<and> map_option nodes (controller_pool ''profileA'' HandLeft demo4) = Some [0, 1]
   \<and> matrix (store demo4 ! 0) = Some 7 \<and> matrix (store demo4 ! 1) = Some 8
   \<and> map_option nodes (controller_pool ''profileA'' HandLeft demo5) = Some [0, 1]
   \<and> matrix (store demo5 ! 0) = Some 9 \<and> matrix (store demo5 ! 1) = Some 8"
proof -
  have p: "controller_pool ''profileA'' HandLeft demo2
     = Some \<lparr>nodes = [0], activeCount = 0, controller_visible = None\<rparr>"
    unfolding demo2_def by (rule controller_pool_setControllerMesh)
  have d2: "\<not> blurred demo2" "maxInputElements demo2 = 2" "length (store demo2) = 1"
    by (simp_all add: demo_defs renderer_defs node_defs asset_node_def Let_def)
  have t: "0 < length (store demo2)" using d2(3) by simp
  have "[7, 8] \<noteq> [] \<and> length [7, 8 :: transform] = maxInputElements demo2"
    using d2(2) by simp
  moreover have n: "nodes \<lparr>nodes = [0], activeCount = 0, controller_visible = None\<rparr> = [0]"
    and a: "activeCount \<lparr>nodes = [0], activeCount = 0, controller_visible = None\<rparr> = 0"
    by simp_all
  note round_robin_acquisition [OF p n a t d2(1), where gs = "[7, 8]" and g = 9]
  ultimately
  obtain s' c' where "addControllers ([7, 8] @ [9]) HandLeft ''profileA'' demo2 = Inr s'"
    and "controller_pool ''profileA'' HandLeft s' = Some c'"
    and "length (nodes c') = length [7, 8 :: transform]" and "distinct (nodes c')"
    and "nodes c' ! 0 = 0" and "matrix (store s' ! (nodes c' ! 0)) = Some 9"
    and "\<forall>i. 0 < i \<and> i < length [7, 8 :: transform] \<longrightarrow>
            matrix (store s' ! (nodes c' ! i)) = Some ([7, 8] ! i)"
    by auto
  then have three: "\<exists>s' c'. addControllers [7, 8, 9] HandLeft ''profileA'' demo2 = Inr s'
          \<and> controller_pool ''profileA'' HandLeft s' = Some c'
          \<and> length (nodes c') = 2 \<and> distinct (nodes c') \<and> nodes c' ! 0 = 0
          \<and> matrix (store s' ! (nodes c' ! 0)) = Some 9
          \<and> matrix (store s' ! (nodes c' ! 1)) = Some 8"
    by (intro exI[of _ s'] exI[of _ c']) simp
  have steps: "map_option nodes (controller_pool ''profileA'' HandLeft demo3) = Some [0]"
    "matrix (store demo3 ! 0) = Some 7"
    "map_option nodes (controller_pool ''profileA'' HandLeft demo4) = Some [0, 1]"
    "matrix (store demo4 ! 0) = Some 7" "matrix (store demo4 ! 1) = Some 8"
    "map_option nodes (controller_pool ''profileA'' HandLeft demo5) = Some [0, 1]"
    "matrix (store demo5 ! 0) = Some 9" "matrix (store demo5 ! 1) = Some 8"
    by (simp_all add: demo_defs renderer_defs node_defs asset_node_def Let_def)
  from p d2 three steps show ?thesis by blast
qed

end
